theory Spec2Isabelle
  imports Complex_Main "HOL-Library.AList"
begin

section \<open>Data model\<close>

subsection \<open>JSON values and Python dictionaries\<close>

text \<open>
  The values that \<^verbatim>\<open>json.loads\<close> produces and \<^verbatim>\<open>json.dumps\<close> accepts. A Python
  dictionary keeps its keys in insertion order, so an object is an association list:
  assignment to a key replaces the value in place or appends the key, \<^verbatim>\<open>pop\<close> removes it.
  Numbers are integers (no claim reads a fractional number out of a JSON value).
\<close>

datatype json =
    JNull
  | JBool bool
  | JInt int
  | JStr string
  | JList "json list"
  | JObj "(string \<times> json) list"

type_synonym pydict = "(string \<times> json) list"

definition dict_get :: "pydict \<Rightarrow> string \<Rightarrow> json option" where
  "dict_get d k = map_of d k"

definition dict_set :: "pydict \<Rightarrow> string \<Rightarrow> json \<Rightarrow> pydict" where
  "dict_set d k v = AList.update k v d"

definition dict_pop :: "pydict \<Rightarrow> string \<Rightarrow> pydict" where
  "dict_pop d k = AList.delete k d"

text \<open>\<^verbatim>\<open>{**a, **b}\<close>: the keys of \<open>a\<close> in order, the values of \<open>b\<close> winning, then the new keys of \<open>b\<close>.\<close>

definition dict_merge :: "pydict \<Rightarrow> pydict \<Rightarrow> pydict" where
  "dict_merge a b = fold (\<lambda>(k, v) d. dict_set d k v) b a"

text \<open>Decimal rendering of a length inside an f-string.\<close>

definition digit_char :: "nat \<Rightarrow> char" where
  "digit_char n = ''0123456789'' ! (n mod 10)"

function str_of_nat :: "nat \<Rightarrow> string" where
  "str_of_nat n = (if n < 10 then [digit_char n] else str_of_nat (n div 10) @ [digit_char n])"
  by pat_completeness auto
termination
  by (relation "measure id") auto

declare str_of_nat.simps [simp del]

subsection \<open>The \<^verbatim>\<open>task_status\<close> table\<close>

text \<open>
  The \<^verbatim>\<open>details\<close> column is \<^verbatim>\<open>TEXT\<close>. The code reads it only through its truth value and
  through \<^verbatim>\<open>json.loads\<close>, and writes it only through \<^verbatim>\<open>json.dumps\<close>; so a text is
  represented by what \<^verbatim>\<open>json.loads\<close> makes of it: \<open>Valid j\<close> is a text that parses to \<open>j\<close>
  (\<^verbatim>\<open>json.dumps(j)\<close> is one), \<open>Invalid s\<close> is the text \<open>s\<close> on which \<^verbatim>\<open>json.loads\<close> raises
  \<^verbatim>\<open>JSONDecodeError\<close>.
\<close>

datatype stored_text = Valid json | Invalid string

datatype error =
    OperationalError
  | Psycopg2Error
  | JSONDecodeError
  | TypeError
  | AttributeError
  | KeyError
  | InvalidJobOperation

definition json_loads :: "stored_text \<Rightarrow> error + json" where
  "json_loads t = (case t of Valid j \<Rightarrow> Inr j | Invalid s \<Rightarrow> Inl JSONDecodeError)"

definition json_dumps :: "json \<Rightarrow> stored_text" where
  "json_dumps j = Valid j"

text \<open>Truth value of a fetched column: \<^verbatim>\<open>None\<close> and the empty string are false.\<close>

definition truthy_text :: "stored_text option \<Rightarrow> bool" where
  "truthy_text t = (case t of None \<Rightarrow> False | Some (Invalid s) \<Rightarrow> s \<noteq> [] | Some (Valid j) \<Rightarrow> True)"

text \<open>
  One row of \<^verbatim>\<open>task_status\<close>. Times are Unix timestamps (\<^verbatim>\<open>DOUBLE PRECISION\<close>), taken
  here as real numbers; \<^verbatim>\<open>status\<close>, \<^verbatim>\<open>parent_task_id\<close>, \<^verbatim>\<open>sub_type_identifier\<close>,
  \<^verbatim>\<open>details\<close>, \<^verbatim>\<open>start_time\<close> and \<^verbatim>\<open>end_time\<close> are nullable.
\<close>

record task_row =
  task_id :: string
  parent_task_id :: "string option"
  task_type :: string
  sub_type_identifier :: "string option"
  status :: "string option"
  progress :: int
  details :: "stored_text option"
  timestamp :: real
  start_time :: "real option"
  end_time :: "real option"

definition MAX_LOG_ENTRIES_STORED :: nat where
  "MAX_LOG_ENTRIES_STORED = 10"

definition TASK_STATUS_PENDING :: string where "TASK_STATUS_PENDING = ''PENDING''"
definition TASK_STATUS_STARTED :: string where "TASK_STATUS_STARTED = ''STARTED''"
definition TASK_STATUS_PROGRESS :: string where "TASK_STATUS_PROGRESS = ''PROGRESS''"
definition TASK_STATUS_SUCCESS :: string where "TASK_STATUS_SUCCESS = ''SUCCESS''"
definition TASK_STATUS_FAILURE :: string where "TASK_STATUS_FAILURE = ''FAILURE''"
definition TASK_STATUS_REVOKED :: string where "TASK_STATUS_REVOKED = ''REVOKED''"

text \<open>The literal list \<^verbatim>\<open>('SUCCESS', 'FAILURE', 'REVOKED')\<close> of the SQL and of the endpoints.\<close>

definition terminal_statuses :: "string list" where
  "terminal_statuses = [TASK_STATUS_SUCCESS, TASK_STATUS_FAILURE, TASK_STATUS_REVOKED]"

subsection \<open>The database connection\<close>

text \<open>
  A connection holds the committed table and the table as the open transaction sees it.
  \<open>fault\<close> says which call of the driver raises: connecting (\<^verbatim>\<open>get_db\<close> re-raises
  \<^verbatim>\<open>OperationalError\<close>), executing a statement, or committing; \<open>rollback_fails\<close> says
  whether \<^verbatim>\<open>db.rollback()\<close> raises as well.
\<close>

datatype db_fault = NoFault | ConnectFails | ExecuteFails | CommitFails

record conn =
  committed :: "task_row list"
  working :: "task_row list"
  fault :: db_fault
  rollback_fails :: bool

definition get_db :: "conn \<Rightarrow> error + conn" where
  "get_db c = (if fault c = ConnectFails then Inl OperationalError else Inr c)"

definition db_commit :: "conn \<Rightarrow> error + conn" where
  "db_commit c = (if fault c = CommitFails then Inl Psycopg2Error else Inr (c\<lparr>committed := working c\<rparr>))"

definition db_rollback :: "conn \<Rightarrow> error + conn" where
  "db_rollback c = (if rollback_fails c then Inl Psycopg2Error else Inr (c\<lparr>working := committed c\<rparr>))"

definition find_row :: "string \<Rightarrow> task_row list \<Rightarrow> task_row option" where
  "find_row tid rows = find (\<lambda>r. task_id r = tid) rows"

section \<open>\<^verbatim>\<open>save_task_status\<close>\<close>

text \<open>The block that caps \<^verbatim>\<open>details['log']\<close> before the write (lines 322-337).\<close>

definition is_list :: "json option \<Rightarrow> bool" where
  "is_list v = (case v of Some (JList xs) \<Rightarrow> True | _ \<Rightarrow> False)"

definition truncation_note :: "nat \<Rightarrow> string" where
  "truncation_note original_log_length =
     ''Log in DB truncated to last '' @ str_of_nat MAX_LOG_ENTRIES_STORED
       @ '' entries. Original length: '' @ str_of_nat original_log_length @ ''.''"

definition cap_log :: "string \<Rightarrow> pydict \<Rightarrow> pydict" where
  "cap_log status' d =
     (if status' \<noteq> TASK_STATUS_SUCCESS \<and> is_list (dict_get d ''log'') then
        (case dict_get d ''log'' of
           Some (JList log_list) \<Rightarrow>
             if length log_list > MAX_LOG_ENTRIES_STORED then
               dict_set
                 (dict_set d ''log'' (JList (drop (length log_list - MAX_LOG_ENTRIES_STORED) log_list)))
                 ''log_storage_info'' (JStr (truncation_note (length log_list)))
             else dict_pop d ''log_storage_info''
         | _ \<Rightarrow> d)
      else if status' = TASK_STATUS_SUCCESS then
        (let d1 = dict_pop d ''log_storage_info'' in
         if dict_get d1 ''log'' = None \<or> \<not> is_list (dict_get d1 ''log'')
              \<or> dict_get d1 ''log'' = Some (JList [])
         then dict_set d1 ''log'' (JList [JStr ''Task completed successfully.''])
         else d1)
      else d)"

definition prepare_details :: "string \<Rightarrow> json option \<Rightarrow> stored_text option" where
  "prepare_details status' details' =
     (case details' of
        None \<Rightarrow> None
      | Some (JObj d) \<Rightarrow> Some (json_dumps (JObj (cap_log status' d)))
      | Some j \<Rightarrow> Some (json_dumps j))"

text \<open>
  The \<^verbatim>\<open>INSERT ... ON CONFLICT (task_id) DO UPDATE\<close> statement (lines 341-357) as a
  function on the table. The update leaves \<^verbatim>\<open>task_type\<close> alone and overwrites
  \<^verbatim>\<open>parent_task_id\<close> and \<^verbatim>\<open>sub_type_identifier\<close> with the call's values.
\<close>

definition upsert_row :: "real \<Rightarrow> string option \<Rightarrow> string option \<Rightarrow> string \<Rightarrow> int
    \<Rightarrow> stored_text option \<Rightarrow> task_row \<Rightarrow> task_row" where
  "upsert_row now parent sub status' progress' details_json r =
     r\<lparr>status := Some status',
       parent_task_id := parent,
       sub_type_identifier := sub,
       progress := progress',
       details := details_json,
       timestamp := now,
       start_time := (case start_time r of None \<Rightarrow> Some now | Some t \<Rightarrow> Some t),
       end_time := (if status' \<in> set terminal_statuses \<and> end_time r = None then Some now
                    else end_time r)\<rparr>"

definition insert_row :: "real \<Rightarrow> string \<Rightarrow> string option \<Rightarrow> string \<Rightarrow> string option \<Rightarrow> string
    \<Rightarrow> int \<Rightarrow> stored_text option \<Rightarrow> task_row" where
  "insert_row now tid parent ttype sub status' progress' details_json =
     \<lparr>task_id = tid, parent_task_id = parent, task_type = ttype, sub_type_identifier = sub,
      status = Some status', progress = progress', details = details_json, timestamp = now,
      start_time = Some now,
      end_time = (if status' \<in> set terminal_statuses then Some now else None)\<rparr>"

definition upsert_task_status :: "real \<Rightarrow> string \<Rightarrow> string option \<Rightarrow> string \<Rightarrow> string option
    \<Rightarrow> string \<Rightarrow> int \<Rightarrow> stored_text option \<Rightarrow> task_row list \<Rightarrow> task_row list" where
  "upsert_task_status now tid parent ttype sub status' progress' details_json rows =
     (if find_row tid rows = None
      then rows @ [insert_row now tid parent ttype sub status' progress' details_json]
      else map (\<lambda>r. if task_id r = tid
                     then upsert_row now parent sub status' progress' details_json r else r) rows)"

text \<open>
  \<^verbatim>\<open>save_task_status\<close>: \<^verbatim>\<open>get_db()\<close> is outside the \<^verbatim>\<open>try\<close>, so a failure to connect
  propagates; an error of \<^verbatim>\<open>cur.execute\<close> or \<^verbatim>\<open>db.commit\<close> is caught, logged and followed by
  a rollback (whose own error is caught and logged too), and the function returns normally.
  \<open>now\<close> is the reading of \<^verbatim>\<open>time.time()\<close>, also taken for the statement's \<^verbatim>\<open>NOW()\<close>.
\<close>

definition save_failed :: "conn \<Rightarrow> conn" where
  "save_failed c = (case db_rollback c of Inl rb_e \<Rightarrow> c | Inr c' \<Rightarrow> c')"

definition save_task_status :: "real \<Rightarrow> string \<Rightarrow> string \<Rightarrow> string \<Rightarrow> string option
    \<Rightarrow> string option \<Rightarrow> int \<Rightarrow> json option \<Rightarrow> conn \<Rightarrow> error + conn" where
  "save_task_status now tid ttype status' parent sub progress' details' c =
     (case get_db c of
        Inl e \<Rightarrow> Inl e
      | Inr db \<Rightarrow>
          let details_json = prepare_details status' details' in
          if fault db = ExecuteFails then Inr (save_failed db)
          else
            let db1 = db\<lparr>working :=
                  upsert_task_status now tid parent ttype sub status' progress' details_json (working db)\<rparr>
            in (case db_commit db1 of
                  Inl e \<Rightarrow> Inr (save_failed db1)
                | Inr db2 \<Rightarrow> Inr db2))"

section \<open>Reading tasks\<close>

text \<open>
  The running time is derived at read time (lines 386-398): zero when \<^verbatim>\<open>start_time\<close> is
  \<^verbatim>\<open>None\<close>, otherwise \<^verbatim>\<open>max(0, effective_end_time - start_time)\<close>.
\<close>

definition running_time_of :: "real \<Rightarrow> task_row \<Rightarrow> real" where
  "running_time_of current_unix_time r =
     (case start_time r of
        None \<Rightarrow> 0
      | Some st \<Rightarrow>
          let effective_end_time = (case end_time r of Some e \<Rightarrow> e | None \<Rightarrow> current_unix_time)
          in max 0 (effective_end_time - st))"

text \<open>A \<^verbatim>\<open>SELECT\<close>: the driver raises when connecting or executing fails.\<close>

definition db_select :: "conn \<Rightarrow> error + task_row list" where
  "db_select c =
     (case get_db c of
        Inl e \<Rightarrow> Inl e
      | Inr db \<Rightarrow> if fault db = ExecuteFails then Inl Psycopg2Error else Inr (working db))"

text \<open>\<^verbatim>\<open>get_task_info_from_db\<close>: the row (if any) with its \<^verbatim>\<open>running_time_seconds\<close>.\<close>

definition get_task_info_from_db :: "real \<Rightarrow> string \<Rightarrow> conn \<Rightarrow> error + (task_row \<times> real) option" where
  "get_task_info_from_db now tid c =
     (case db_select c of
        Inl e \<Rightarrow> Inl e
      | Inr rows \<Rightarrow>
          (case find_row tid rows of
             None \<Rightarrow> Inr None
           | Some r \<Rightarrow> Inr (Some (r, running_time_of now r))))"

text \<open>
  \<^verbatim>\<open>get_child_tasks_from_db\<close>: the rows whose \<^verbatim>\<open>parent_task_id\<close> is the given id, in table
  order (the query selects four of their columns; the caller reads \<^verbatim>\<open>task_id\<close> only).
\<close>

definition get_child_tasks_from_db :: "string \<Rightarrow> conn \<Rightarrow> error + task_row list" where
  "get_child_tasks_from_db parent c =
     (case db_select c of
        Inl e \<Rightarrow> Inl e
      | Inr rows \<Rightarrow> Inr (filter (\<lambda>r. parent_task_id r = Some parent) rows))"

section \<open>The queue engine\<close>

text \<open>
  The queue engine is the external library RQ; its contract is the one of the spec's
  section 6: a job fetched by id or not found, a status among five, a metadata map holding
  \<^verbatim>\<open>status_message\<close>, \<^verbatim>\<open>progress\<close> and \<^verbatim>\<open>details\<close>, and the commands stop and cancel.
  \<open>refuses\<close> lists the jobs on which a command raises; \<open>sent\<close> records the commands the
  engine accepted, in order.
\<close>

datatype job_status = queued | started | finished | failed | canceled

fun status_value :: "job_status \<Rightarrow> string" where
  "status_value queued = ''queued''"
| "status_value started = ''started''"
| "status_value finished = ''finished''"
| "status_value failed = ''failed''"
| "status_value canceled = ''canceled''"

record job_meta =
  meta_status_message :: "string option"
  meta_progress :: "int option"
  meta_details :: "pydict option"

record rq_job =
  job_state :: job_status
  meta :: job_meta
  exc_info :: "string option"

datatype rq_command = Stop | Cancel

record engine =
  jobs :: "string \<Rightarrow> rq_job option"
  refuses :: "string \<Rightarrow> bool"
  sent :: "(string \<times> rq_command) list"

text \<open>\<^verbatim>\<open>Job.fetch\<close>: \<open>None\<close> stands for \<^verbatim>\<open>NoSuchJobError\<close>.\<close>

definition job_fetch :: "string \<Rightarrow> engine \<Rightarrow> rq_job option" where
  "job_fetch jid e = jobs e jid"

definition send_stop_job_command :: "string \<Rightarrow> engine \<Rightarrow> error + engine" where
  "send_stop_job_command jid e =
     (if refuses e jid then Inl InvalidJobOperation
      else Inr (e\<lparr>sent := sent e @ [(jid, Stop)]\<rparr>))"

definition job_cancel :: "string \<Rightarrow> rq_job \<Rightarrow> engine \<Rightarrow> error + engine" where
  "job_cancel jid job e =
     (if refuses e jid then Inl InvalidJobOperation
      else Inr (e\<lparr>jobs := (jobs e)(jid \<mapsto> job\<lparr>job_state := canceled\<rparr>),
                 sent := sent e @ [(jid, Cancel)]\<rparr>))"

definition is_terminal_job :: "rq_job \<Rightarrow> bool" where
  "is_terminal_job job = (job_state job = finished \<or> job_state job = failed \<or> job_state job = canceled)"

record world =
  db :: conn
  rq :: engine

section \<open>Status reconciliation: \<^verbatim>\<open>get_task_status_endpoint\<close>\<close>

text \<open>
  The response object, typed as the endpoint documents it: \<^verbatim>\<open>state\<close> may become the
  nullable \<^verbatim>\<open>status\<close> column, \<^verbatim>\<open>progress\<close> is an integer, \<^verbatim>\<open>details\<close> an object.
\<close>

record status_response =
  resp_task_id :: string
  state :: "string option"
  status_message :: string
  resp_progress :: int
  resp_details :: pydict
  task_type_from_db :: "string option"
  running_time_seconds :: real

definition initial_response :: "string \<Rightarrow> status_response" where
  "initial_response tid =
     \<lparr>resp_task_id = tid, state = Some ''UNKNOWN'',
      status_message = ''Task ID not found in RQ or DB.'', resp_progress = 0,
      resp_details = [], task_type_from_db = None, running_time_seconds = 0\<rparr>"

text \<open>The \<^verbatim>\<open>try\<close> block of lines 661-679: the live view, when the engine has the job.\<close>

definition live_view :: "engine \<Rightarrow> status_response \<Rightarrow> status_response" where
  "live_view e response =
     (case job_fetch (resp_task_id response) e of
        None \<Rightarrow> response
      | Some job \<Rightarrow>
          let st = status_value (job_state job);
              r1 = response\<lparr>
                     state := Some st,
                     status_message := (case meta_status_message (meta job) of Some m \<Rightarrow> m | None \<Rightarrow> st),
                     resp_progress := (case meta_progress (meta job) of Some p \<Rightarrow> p | None \<Rightarrow> 0),
                     resp_details := (case meta_details (meta job) of Some d \<Rightarrow> d | None \<Rightarrow> [])\<rparr>
          in if job_state job = failed then
               r1\<lparr>resp_details := dict_set (resp_details r1) ''error_message''
                       (JStr (case exc_info job of
                                None \<Rightarrow> ''Job failed without error info.''
                              | Some x \<Rightarrow> if x = [] then ''Job failed without error info.'' else x)),
                  status_message := ''FAILED''\<rparr>
             else if job_state job = finished then
               r1\<lparr>status_message := ''SUCCESS'', resp_progress := 100\<rparr>
             else if job_state job = canceled then
               r1\<lparr>status_message := ''CANCELED'', resp_progress := 100\<rparr>
             else r1)"

text \<open>\<^verbatim>\<open>json.loads(details) if details else {}\<close>, then used as a mapping in \<^verbatim>\<open>{**db_details, ...}\<close>.\<close>

definition load_db_details :: "stored_text option \<Rightarrow> error + pydict" where
  "load_db_details t =
     (if truthy_text t then
        (case t of
           Some x \<Rightarrow>
             (case json_loads x of
                Inl e \<Rightarrow> Inl e
              | Inr (JObj d) \<Rightarrow> Inr d
              | Inr _ \<Rightarrow> Inl TypeError)
         | None \<Rightarrow> Inr [])
      else Inr [])"

text \<open>Lines 682-699: the stored view laid over the live one.\<close>

definition stored_view :: "task_row \<Rightarrow> real \<Rightarrow> status_response \<Rightarrow> error + status_response" where
  "stored_view row rt response =
     (let r1 = response\<lparr>task_type_from_db := Some (task_type row), running_time_seconds := rt\<rparr>;
          r2 = (if state r1 \<notin> {Some (status_value finished), Some (status_value failed),
                                 Some (status_value canceled)}
                then r1\<lparr>state := status row\<rparr> else r1);
          r3 = r2\<lparr>resp_progress := progress row\<rparr>
      in case load_db_details (details row) of
           Inl e \<Rightarrow> Inl e
         | Inr db_details \<Rightarrow>
             let r4 = r3\<lparr>resp_details := dict_merge db_details (resp_details r3)\<rparr>
             in if status row = Some TASK_STATUS_REVOKED
                then Inr (r4\<lparr>state := Some ''REVOKED'', status_message := ''Task revoked.'',
                              resp_progress := 100\<rparr>)
                else Inr r4)"

text \<open>\<^verbatim>\<open>'analysis' in task_type\<close>: substring test.\<close>

fun contains :: "string \<Rightarrow> string \<Rightarrow> bool" where
  "contains sub [] = (sub = [])"
| "contains sub (c # cs) = (take (length sub) (c # cs) = sub \<or> contains sub cs)"

text \<open>Lines 703-715: pruning and the cap on the log of the response.\<close>

definition summarise_log :: "pydict \<Rightarrow> pydict" where
  "summarise_log d =
     (case dict_get d ''log'' of
        Some (JList log_entries) \<Rightarrow>
          if length log_entries > 10 then
            dict_set d ''log''
              (JList (JStr (''... ('' @ str_of_nat (length log_entries - 10)
                              @ '' earlier log entries truncated)'')
                      # drop (length log_entries - 10) log_entries))
          else d
      | _ \<Rightarrow> d)"

definition tidy_response :: "status_response \<Rightarrow> status_response" where
  "tidy_response response =
     (let r1 = (case task_type_from_db response of
                  Some ty \<Rightarrow> if ty \<noteq> [] \<and> contains ''analysis'' ty
                             then response\<lparr>resp_details := dict_pop (resp_details response) ''checked_album_ids''\<rparr>
                             else response
                | None \<Rightarrow> response)
      in r1\<lparr>resp_details := summarise_log (resp_details r1)\<rparr>)"

text \<open>The endpoint: the response and the HTTP status.\<close>

definition get_task_status_endpoint :: "real \<Rightarrow> string \<Rightarrow> world \<Rightarrow> error + status_response \<times> nat" where
  "get_task_status_endpoint now tid w =
     (let response = live_view (rq w) (initial_response tid) in
      case get_task_info_from_db now tid (db w) of
        Inl e \<Rightarrow> Inl e
      | Inr (Some (row, rt)) \<Rightarrow>
          (case stored_view row rt response of
             Inl e \<Rightarrow> Inl e
           | Inr r \<Rightarrow> Inr (tidy_response r, 200))
      | Inr None \<Rightarrow>
          if state response = Some ''UNKNOWN'' then Inr (response, 404)
          else Inr (tidy_response response, 200))"

section \<open>Cancellation\<close>

text \<open>
  Lines 747-769: the attempt to interrupt the job. Any exception of the engine is caught
  and logged, and then no action counts as taken.
\<close>

definition interrupt_job :: "string \<Rightarrow> engine \<Rightarrow> bool \<times> engine" where
  "interrupt_job jid e =
     (case job_fetch jid e of
        None \<Rightarrow> (False, e)
      | Some job_rq \<Rightarrow>
          if \<not> is_terminal_job job_rq then
            (case (if job_state job_rq = started then send_stop_job_command jid e
                   else job_cancel jid job_rq e) of
               Inl e_rq_interaction \<Rightarrow> (False, e)
             | Inr e' \<Rightarrow> (True, e'))
          else (False, e))"

text \<open>Lines 732-741: without a task type, a bare stop command and an early return.\<close>

definition stop_untyped_job :: "string \<Rightarrow> world \<Rightarrow> error + nat \<times> world" where
  "stop_untyped_job jid w =
     (case job_fetch jid (rq w) of
        None \<Rightarrow> Inr (0, w)
      | Some job \<Rightarrow>
          (case send_stop_job_command jid (rq w) of
             Inl e \<Rightarrow> Inl e
           | Inr e' \<Rightarrow> Inr (1, w\<lparr>rq := e'\<rparr>)))"

definition parent_revocation_reason :: string where
  "parent_revocation_reason = ''Cancelled due to parent task revocation.''"

text \<open>
  \<^verbatim>\<open>cancel_job_and_children_recursive\<close> and its loop over the children. The recursion
  follows rows of the table, so the first argument bounds its depth: \<open>None\<close> is a call
  that did not return within that depth. The result is the count and the world after.
  \<open>now\<close> stands for the clock readings of the call, taken as one instant.
\<close>

fun cancel_job_and_children_recursive ::
    "nat \<Rightarrow> real \<Rightarrow> string \<Rightarrow> string option \<Rightarrow> string \<Rightarrow> world \<Rightarrow> (error + nat \<times> world) option"
  and cancel_children ::
    "nat \<Rightarrow> real \<Rightarrow> task_row list \<Rightarrow> nat \<Rightarrow> world \<Rightarrow> (error + nat \<times> world) option"
where
  "cancel_job_and_children_recursive 0 now job_id type_from_caller reason w = None"
| "cancel_job_and_children_recursive (Suc depth) now job_id type_from_caller reason w =
     (case get_task_info_from_db now job_id (db w) of
        Inl e \<Rightarrow> Some (Inl e)
      | Inr db_task_info \<Rightarrow>
          (case (case db_task_info of Some (row, rt) \<Rightarrow> Some (task_type row)
                 | None \<Rightarrow> type_from_caller) of
             None \<Rightarrow> Some (stop_untyped_job job_id w)
           | Some current_task_type \<Rightarrow>
               if current_task_type = [] then Some (stop_untyped_job job_id w)
               else
                 (case save_task_status now job_id current_task_type TASK_STATUS_REVOKED None None 100
                         (Some (JObj [(''message'', JStr reason)])) (db w) of
                    Inl e \<Rightarrow> Some (Inl e)
                  | Inr db1 \<Rightarrow>
                      (case interrupt_job job_id (rq w) of
                         (action_taken_in_rq, rq1) \<Rightarrow>
                           (case get_child_tasks_from_db job_id db1 of
                              Inl e \<Rightarrow> Some (Inl e)
                            | Inr children_tasks \<Rightarrow>
                                cancel_children depth now children_tasks
                                  (if action_taken_in_rq then 1 else 0)
                                  \<lparr>db = db1, rq = rq1\<rparr>)))))"
| "cancel_children depth now [] cancelled_count w = Some (Inr (cancelled_count, w))"
| "cancel_children depth now (child_task # rest) cancelled_count w =
     (case get_task_info_from_db now (task_id child_task) (db w) of
        Inl e \<Rightarrow> Some (Inl e)
      | Inr None \<Rightarrow> cancel_children depth now rest cancelled_count w
      | Inr (Some (row, rt)) \<Rightarrow>
          if status row \<notin> Some ` set terminal_statuses then
            (case cancel_job_and_children_recursive depth now (task_id child_task) None
                    parent_revocation_reason w of
               None \<Rightarrow> None
             | Some (Inl e) \<Rightarrow> Some (Inl e)
             | Some (Inr (n, w')) \<Rightarrow> cancel_children depth now rest (cancelled_count + n) w')
          else cancel_children depth now rest cancelled_count w)"

text \<open>\<^verbatim>\<open>cancel_task_endpoint\<close>: the JSON body and the HTTP status.\<close>

record cancel_response =
  message :: string
  cancel_task_id :: string
  cancelled_jobs_count :: "nat option"

definition status_text :: "string option \<Rightarrow> string" where
  "status_text s = (case s of None \<Rightarrow> ''None'' | Some x \<Rightarrow> x)"

definition cancel_task_endpoint ::
    "nat \<Rightarrow> real \<Rightarrow> string \<Rightarrow> world \<Rightarrow> (error + (cancel_response \<times> nat) \<times> world) option" where
  "cancel_task_endpoint depth now tid w =
     (case get_task_info_from_db now tid (db w) of
        Inl e \<Rightarrow> Some (Inl e)
      | Inr None \<Rightarrow>
          Some (Inr ((\<lparr>message = ''Task '' @ tid @ '' not found in database.'',
                        cancel_task_id = tid, cancelled_jobs_count = None\<rparr>, 404), w))
      | Inr (Some (row, rt)) \<Rightarrow>
          if status row \<in> Some ` set terminal_statuses then
            Some (Inr ((\<lparr>message = ''Task '' @ tid @ '' is already in a terminal state (''
                            @ status_text (status row) @ '') and cannot be cancelled.'',
                          cancel_task_id = tid, cancelled_jobs_count = None\<rparr>, 400), w))
          else
            (case cancel_job_and_children_recursive depth now tid None
                    (''Cancellation requested for task '' @ tid @ '' via API.'') w of
               None \<Rightarrow> None
             | Some (Inl e) \<Rightarrow> Some (Inl e)
             | Some (Inr (cancelled_count, w')) \<Rightarrow>
                 if cancelled_count > 0 then
                   Some (Inr ((\<lparr>message = ''Task '' @ tid @ '' and its children cancellation initiated. ''
                                   @ str_of_nat cancelled_count @ '' total jobs affected.'',
                                 cancel_task_id = tid,
                                 cancelled_jobs_count = Some cancelled_count\<rparr>, 200), w'))
                 else
                   Some (Inr ((\<lparr>message = ''Task could not be cancelled (e.g., already completed or not found in active state).'',
                                 cancel_task_id = tid, cancelled_jobs_count = None\<rparr>, 400), w'))))"

section \<open>The archival sweep: \<^verbatim>\<open>clean_up_previous_main_tasks\<close>\<close>

text \<open>The tuple the source calls \<^verbatim>\<open>non_terminal_statuses\<close> in this function (line 261).\<close>

definition cleanup_statuses :: "string list" where
  "cleanup_statuses =
     [TASK_STATUS_PENDING, TASK_STATUS_STARTED, TASK_STATUS_PROGRESS, TASK_STATUS_SUCCESS]"

text \<open>The \<^verbatim>\<open>SELECT\<close> of line 264: id, status and details of the root tasks in those statuses.\<close>

definition select_tasks_to_archive :: "task_row list \<Rightarrow> (string \<times> string \<times> stored_text option) list" where
  "select_tasks_to_archive rows =
     List.map_filter
       (\<lambda>r. case status r of
               None \<Rightarrow> None
             | Some s \<Rightarrow> if s \<in> set cleanup_statuses \<and> parent_task_id r = None
                         then Some (task_id r, s, details r) else None)
       rows"

text \<open>
  Lines 272-280. \<open>py_str\<close> is Python's formatting of a value that is not a string inside
  an f-string. A text that does not parse is tolerated (\<^verbatim>\<open>JSONDecodeError\<close> is caught);
  a text that parses to something other than an object has no \<^verbatim>\<open>get\<close>, and the
  \<^verbatim>\<open>AttributeError\<close> leaves the loop.
\<close>

definition original_summary :: "(json \<Rightarrow> string) \<Rightarrow> string \<Rightarrow> stored_text option \<Rightarrow> error + string" where
  "original_summary py_str original_status original_details_json =
     (let original_status_message = ''Task was in '' @ [CHR 0x27] @ original_status @ [CHR 0x27] @ '' state.'' in
      if truthy_text original_details_json then
        (case original_details_json of
           None \<Rightarrow> Inr original_status_message
         | Some t \<Rightarrow>
             (case json_loads t of
                Inl e \<Rightarrow> Inr original_status_message
              | Inr (JObj original_details_dict) \<Rightarrow>
                  (case dict_get original_details_dict ''status_message'' of
                     None \<Rightarrow> Inr original_status_message
                   | Some (JStr s) \<Rightarrow> Inr s
                   | Some v \<Rightarrow> Inr (py_str v))
              | Inr _ \<Rightarrow> Inl AttributeError))
      else Inr original_status_message)"

definition archival_reason_of :: "string \<Rightarrow> string" where
  "archival_reason_of original_status =
     (if original_status = TASK_STATUS_SUCCESS
      then ''New main task started, old successful task archived.''
      else ''New main task started, stale task (status: '' @ original_status @ '') has been archived.'')"

definition archived_details_of :: "string \<Rightarrow> string \<Rightarrow> json" where
  "archived_details_of original_status original_status_message =
     JObj [(''log'', JList [JStr (''[Archived] '' @ archival_reason_of original_status
                                   @ ''. Original summary: '' @ original_status_message)]),
           (''original_status_before_archival'', JStr original_status),
           (''archival_reason'', JStr (archival_reason_of original_status))]"

text \<open>The \<^verbatim>\<open>UPDATE ... WHERE task_id = %s AND status = %s\<close> of line 296.\<close>

definition archive_update :: "real \<Rightarrow> string \<Rightarrow> string \<Rightarrow> stored_text \<Rightarrow> task_row list \<Rightarrow> task_row list" where
  "archive_update now tid original_status archived_details_json rows =
     map (\<lambda>r. if task_id r = tid \<and> status r = Some original_status
               then r\<lparr>status := Some TASK_STATUS_REVOKED, details := Some archived_details_json,
                      progress := 100, timestamp := now\<rparr>
               else r) rows"

fun archive_each :: "(json \<Rightarrow> string) \<Rightarrow> real \<Rightarrow> (string \<times> string \<times> stored_text option) list \<Rightarrow> nat
    \<Rightarrow> task_row list \<Rightarrow> (error + nat) \<times> task_row list" where
  "archive_each py_str now [] archived_count rows = (Inr archived_count, rows)"
| "archive_each py_str now ((tid, original_status, original_details_json) # rest) archived_count rows =
     (case original_summary py_str original_status original_details_json of
        Inl e \<Rightarrow> (Inl e, rows)
      | Inr original_status_message \<Rightarrow>
          archive_each py_str now rest (archived_count + 1)
            (archive_update now tid original_status
               (json_dumps (archived_details_of original_status original_status_message)) rows))"

datatype sweep_outcome = Archived nat | NothingToCleanUp | SweepFailed error

text \<open>The \<^verbatim>\<open>try\<close> block: the outcome or the exception, and the connection at that point.\<close>

definition sweep :: "(json \<Rightarrow> string) \<Rightarrow> real \<Rightarrow> conn \<Rightarrow> (error + sweep_outcome) \<times> conn" where
  "sweep py_str now c =
     (if fault c = ExecuteFails then (Inl Psycopg2Error, c)
      else
        (case archive_each py_str now (select_tasks_to_archive (working c)) 0 (working c) of
           (Inl e, rows') \<Rightarrow> (Inl e, c\<lparr>working := rows'\<rparr>)
         | (Inr archived_count, rows') \<Rightarrow>
             let c1 = c\<lparr>working := rows'\<rparr> in
             if archived_count > 0 then
               (case db_commit c1 of
                  Inl e \<Rightarrow> (Inl e, c1)
                | Inr c2 \<Rightarrow> (Inr (Archived archived_count), c2))
             else (Inr NothingToCleanUp, c1)))"

text \<open>
  The whole function: on any exception of the block the batch is rolled back and the
  error logged; only a failing \<^verbatim>\<open>get_db\<close> or rollback reaches the caller.
\<close>

definition clean_up_previous_main_tasks :: "(json \<Rightarrow> string) \<Rightarrow> real \<Rightarrow> conn \<Rightarrow> error + sweep_outcome \<times> conn" where
  "clean_up_previous_main_tasks py_str now c =
     (case get_db c of
        Inl e \<Rightarrow> Inl e
      | Inr c0 \<Rightarrow>
          (case sweep py_str now c0 of
             (Inl e_main_clean, c1) \<Rightarrow>
               (case db_rollback c1 of
                  Inl e \<Rightarrow> Inl e
                | Inr c2 \<Rightarrow> Inr (SweepFailed e_main_clean, c2))
           | (Inr outcome, c1) \<Rightarrow> Inr (outcome, c1)))"

section \<open>The last-task and active-task views\<close>

text \<open>
  What a view returns for a row: its selected columns, the \<^verbatim>\<open>details\<close> entry (absent,
  parsed, or the raw text) and the derived \<^verbatim>\<open>running_time_seconds\<close>.
\<close>

datatype details_view = NoDetails | ParsedDetails json | RawDetails string

record task_item =
  item_row :: task_row
  item_details :: details_view
  item_running_time_seconds :: real

text \<open>\<^verbatim>\<open>ORDER BY timestamp DESC LIMIT 1\<close> (among equal timestamps, the first in table order).\<close>

fun most_recent :: "task_row list \<Rightarrow> task_row option" where
  "most_recent [] = None"
| "most_recent (r # rs) =
     (case most_recent rs of
        None \<Rightarrow> Some r
      | Some r' \<Rightarrow> if timestamp r' \<le> timestamp r then Some r else Some r')"

definition unparsed_details :: "stored_text option \<Rightarrow> details_view" where
  "unparsed_details t =
     (case t of None \<Rightarrow> NoDetails | Some (Invalid s) \<Rightarrow> RawDetails s | Some (Valid j) \<Rightarrow> ParsedDetails j)"

text \<open>Lines 907-913: \<^verbatim>\<open>if start_time:\<close> tests the truth value of the timestamp.\<close>

definition last_task_running_time :: "real \<Rightarrow> task_row \<Rightarrow> real" where
  "last_task_running_time now r =
     (case start_time r of
        None \<Rightarrow> 0
      | Some st \<Rightarrow>
          if st \<noteq> 0 then
            (let effective_end_time = (case end_time r of Some e \<Rightarrow> e | None \<Rightarrow> now)
             in max 0 (effective_end_time - st))
          else 0)"

definition last_task_details :: "stored_text option \<Rightarrow> details_view" where
  "last_task_details t =
     (if truthy_text t then
        (case t of
           Some x \<Rightarrow>
             (case json_loads x of
                Inl e \<Rightarrow> unparsed_details t
              | Inr (JObj d) \<Rightarrow> ParsedDetails (JObj (summarise_log d))
              | Inr j \<Rightarrow> ParsedDetails j)
         | None \<Rightarrow> NoDetails)
      else unparsed_details t)"

definition get_last_overall_task_status_endpoint :: "real \<Rightarrow> conn \<Rightarrow> error + task_item option" where
  "get_last_overall_task_status_endpoint now c =
     (case db_select c of
        Inl e \<Rightarrow> Inl e
      | Inr rows \<Rightarrow>
          (case most_recent (filter (\<lambda>r. parent_task_id r = None) rows) of
             None \<Rightarrow> Inr None
           | Some last_task_row \<Rightarrow>
               Inr (Some \<lparr>item_row = last_task_row,
                          item_details = last_task_details (details last_task_row),
                          item_running_time_seconds = last_task_running_time now last_task_row\<rparr>)))"

text \<open>The tuple \<^verbatim>\<open>non_terminal_statuses\<close> of the active-task view (line 940).\<close>

definition active_statuses :: "string list" where
  "active_statuses = [TASK_STATUS_PENDING, TASK_STATUS_STARTED, TASK_STATUS_PROGRESS]"

definition active_running_time :: "real \<Rightarrow> task_row \<Rightarrow> real" where
  "active_running_time now r =
     (case start_time r of
        None \<Rightarrow> 0
      | Some st \<Rightarrow> if st \<noteq> 0 then max 0 (now - st) else 0)"

text \<open>\<^verbatim>\<open>key in value\<close> for a parsed JSON value.\<close>

definition py_in :: "string \<Rightarrow> json \<Rightarrow> error + bool" where
  "py_in k v =
     (case v of
        JObj d \<Rightarrow> Inr (dict_get d k \<noteq> None)
      | JList xs \<Rightarrow> Inr (JStr k \<in> set xs)
      | JStr s \<Rightarrow> Inr (contains k s)
      | _ \<Rightarrow> Inl TypeError)"

text \<open>Lines 968-974: the nested removal of \<^verbatim>\<open>initial_centroids\<close>.\<close>

definition prune_initial_centroids :: "pydict \<Rightarrow> error + pydict" where
  "prune_initial_centroids d =
     (case dict_get d ''best_params'' of
        Some (JObj bp) \<Rightarrow>
          (case dict_get bp ''clustering_method_config'' of
             Some (JObj cmc) \<Rightarrow>
               (case dict_get cmc ''params'' of
                  None \<Rightarrow> Inl KeyError
                | Some p \<Rightarrow>
                    (case py_in ''params'' p of
                       Inl e \<Rightarrow> Inl e
                     | Inr found \<Rightarrow>
                         (case p of
                            JObj pd \<Rightarrow>
                              if found then
                                Inr (dict_set d ''best_params''
                                      (JObj (dict_set bp ''clustering_method_config''
                                        (JObj (dict_set cmc ''params''
                                          (JObj (dict_pop pd ''initial_centroids'')))))))
                              else Inr d
                          | _ \<Rightarrow> Inr d)))
           | _ \<Rightarrow> Inr d)
      | _ \<Rightarrow> Inr d)"

definition active_task_details :: "stored_text option \<Rightarrow> error + details_view" where
  "active_task_details t =
     (if truthy_text t then
        (case t of
           Some (Invalid s) \<Rightarrow>
             Inr (ParsedDetails (JObj [(''raw_details'', JStr s),
                                        (''error'', JStr ''Failed to parse details JSON.'')]))
         | Some (Valid (JObj d)) \<Rightarrow>
             (case prune_initial_centroids
                     (dict_pop (dict_pop d ''clustering_run_job_ids'') ''checked_album_ids'') of
                Inl e \<Rightarrow> Inl e
              | Inr d' \<Rightarrow> Inr (ParsedDetails (JObj d')))
         | Some (Valid j) \<Rightarrow> Inr (ParsedDetails j)
         | None \<Rightarrow> Inr NoDetails)
      else Inr (unparsed_details t))"

definition get_active_tasks_endpoint :: "real \<Rightarrow> conn \<Rightarrow> error + task_item option" where
  "get_active_tasks_endpoint now c =
     (case db_select c of
        Inl e \<Rightarrow> Inl e
      | Inr rows \<Rightarrow>
          (case most_recent (filter (\<lambda>r. parent_task_id r = None
                                         \<and> status r \<in> Some ` set active_statuses) rows) of
             None \<Rightarrow> Inr None
           | Some active_main_task_row \<Rightarrow>
               (case active_task_details (details active_main_task_row) of
                  Inl e \<Rightarrow> Inl e
                | Inr dv \<Rightarrow>
                    Inr (Some \<lparr>item_row = active_main_task_row,
                               item_details = dv,
                               item_running_time_seconds =
                                 active_running_time now active_main_task_row\<rparr>))))"

section \<open>Notions used to state the properties\<close>

text \<open>A connection on which no call of the driver raises and no transaction is open.\<close>

definition healthy :: "task_row list \<Rightarrow> conn" where
  "healthy rows = \<lparr>committed = rows, working = rows, fault = NoFault, rollback_fails = False\<rparr>"

text \<open>What is durably stored for a task: its \<^verbatim>\<open>details\<close> column in the committed table.\<close>

definition persisted_details :: "string \<Rightarrow> conn \<Rightarrow> stored_text option" where
  "persisted_details tid c = (case find_row tid (committed c) of None \<Rightarrow> None | Some r \<Rightarrow> details r)"

text \<open>A sequence of calls of \<^verbatim>\<open>save_task_status\<close> on one task id, each with its clock reading.\<close>

record save_call =
  at_time :: real
  call_task_type :: string
  call_status :: string
  call_parent :: "string option"
  call_sub_type :: "string option"
  call_progress :: int
  call_details :: "json option"

definition do_call :: "string \<Rightarrow> save_call \<Rightarrow> conn \<Rightarrow> error + conn" where
  "do_call tid x c =
     save_task_status (at_time x) tid (call_task_type x) (call_status x) (call_parent x)
       (call_sub_type x) (call_progress x) (call_details x) c"

fun save_sequence :: "string \<Rightarrow> save_call list \<Rightarrow> conn \<Rightarrow> error + conn" where
  "save_sequence tid [] c = Inr c"
| "save_sequence tid (x # xs) c =
     (case do_call tid x c of Inl e \<Rightarrow> Inl e | Inr c' \<Rightarrow> save_sequence tid xs c')"

definition stored_start_time :: "string \<Rightarrow> conn \<Rightarrow> real option" where
  "stored_start_time tid c = (case find_row tid (working c) of None \<Rightarrow> None | Some r \<Rightarrow> start_time r)"

definition stored_end_time :: "string \<Rightarrow> conn \<Rightarrow> real option" where
  "stored_end_time tid c = (case find_row tid (working c) of None \<Rightarrow> None | Some r \<Rightarrow> end_time r)"

definition is_terminal_call :: "save_call \<Rightarrow> bool" where
  "is_terminal_call x = (call_status x \<in> set terminal_statuses)"

text \<open>A log of fifteen entries.\<close>

definition fifteen :: "json list" where
  "fifteen = map JStr [''e1'', ''e2'', ''e3'', ''e4'', ''e5'', ''e6'', ''e7'', ''e8'', ''e9'',
     ''e10'', ''e11'', ''e12'', ''e13'', ''e14'', ''e15'']"

text \<open>
  A \<^verbatim>\<open>details\<close> column as the data model types it: absent, empty, or the text of a
  JSON object.
\<close>

definition object_or_absent :: "stored_text option \<Rightarrow> bool" where
  "object_or_absent t =
     (case t of
        None \<Rightarrow> True
      | Some (Valid (JObj d)) \<Rightarrow> True
      | Some (Valid _) \<Rightarrow> False
      | Some (Invalid s) \<Rightarrow> s = [])"

text \<open>An engine that holds the given jobs and accepts every command.\<close>

definition engine_with :: "(string \<Rightarrow> rq_job option) \<Rightarrow> engine" where
  "engine_with js = \<lparr>jobs = js, refuses = (\<lambda>jid. False), sent = []\<rparr>"

text \<open>A job in the given state whose metadata reports the given progress.\<close>

definition job_in :: "job_status \<Rightarrow> int option \<Rightarrow> rq_job" where
  "job_in s p =
     \<lparr>job_state = s,
      meta = \<lparr>meta_status_message = None, meta_progress = p, meta_details = None\<rparr>,
      exc_info = None\<rparr>"

text \<open>A row with the given id, parent, type, status, details and times.\<close>

definition row_of :: "string \<Rightarrow> string option \<Rightarrow> string \<Rightarrow> string \<Rightarrow> stored_text option
    \<Rightarrow> real option \<Rightarrow> real option \<Rightarrow> task_row" where
  "row_of tid parent ttype st det t0 t1 =
     \<lparr>task_id = tid, parent_task_id = parent, task_type = ttype, sub_type_identifier = None,
      status = Some st, progress = 40, details = det, timestamp = 1,
      start_time = t0, end_time = t1\<rparr>"

text \<open>
  The root tasks the sweep selects, the details on which its loop does not raise (anything
  but the text of a JSON value that is not an object), and the row it writes for one.
\<close>

definition eligible :: "task_row \<Rightarrow> bool" where
  "eligible r = (parent_task_id r = None \<and> status r \<in> Some ` set cleanup_statuses)"

definition archivable_details :: "stored_text option \<Rightarrow> bool" where
  "archivable_details t =
     (case t of
        Some (Valid (JObj d)) \<Rightarrow> True
      | Some (Valid _) \<Rightarrow> False
      | _ \<Rightarrow> True)"

definition summary_text :: "(json \<Rightarrow> string) \<Rightarrow> string \<Rightarrow> stored_text option \<Rightarrow> string" where
  "summary_text py_str s t = (case original_summary py_str s t of Inl e \<Rightarrow> [] | Inr m \<Rightarrow> m)"

definition archived_row :: "(json \<Rightarrow> string) \<Rightarrow> real \<Rightarrow> task_row \<Rightarrow> task_row" where
  "archived_row py_str now r =
     (case status r of
        None \<Rightarrow> r
      | Some s \<Rightarrow>
          r\<lparr>status := Some TASK_STATUS_REVOKED,
            details := Some (json_dumps (archived_details_of s (summary_text py_str s (details r)))),
            progress := 100, timestamp := now\<rparr>)"

text \<open>The effect of one \<^verbatim>\<open>UPDATE\<close> of the sweep on one row, and the selection of one row.\<close>

definition archive_one :: "(json \<Rightarrow> string) \<Rightarrow> real \<Rightarrow> string \<times> string \<times> stored_text option \<Rightarrow> task_row \<Rightarrow> task_row" where
  "archive_one py_str now t r =
     (case t of (tid, s, d) \<Rightarrow>
        if task_id r = tid \<and> status r = Some s
        then r\<lparr>status := Some TASK_STATUS_REVOKED,
               details := Some (json_dumps (archived_details_of s (summary_text py_str s d))),
               progress := 100, timestamp := now\<rparr>
        else r)"

definition selected :: "task_row \<Rightarrow> (string \<times> string \<times> stored_text option) option" where
  "selected r =
     (case status r of
        None \<Rightarrow> None
      | Some s \<Rightarrow> if s \<in> set cleanup_statuses \<and> parent_task_id r = None
                  then Some (task_id r, s, details r) else None)"

text \<open>
  Task trees. A tree of task ids is stored in a table when every node has a row and the
  rows whose \<^verbatim>\<open>parent_task_id\<close> is a node are, in table order, the node's subtrees. The
  cancellation follows only the children whose status is not terminal: the tree it walks
  keeps, under each node, the children that are not terminal.
\<close>

datatype task_tree = Node string "task_tree list"

fun root_id :: "task_tree \<Rightarrow> string" where
  "root_id (Node k ts) = k"

fun ids :: "task_tree \<Rightarrow> string list" where
  "ids (Node k ts) = k # concat (map ids ts)"

definition non_terminal :: "task_row \<Rightarrow> bool" where
  "non_terminal r = (status r \<notin> Some ` set terminal_statuses)"

definition children_of :: "string \<Rightarrow> task_row list \<Rightarrow> task_row list" where
  "children_of k rows = filter (\<lambda>r. parent_task_id r = Some k) rows"

fun stored_tree :: "task_row list \<Rightarrow> task_tree \<Rightarrow> bool" where
  "stored_tree rows (Node k ts) =
     (find_row k rows \<noteq> None
      \<and> map task_id (children_of k rows) = map root_id ts
      \<and> (\<forall>t\<in>set ts. stored_tree rows t))"

fun walked_tree :: "task_row list \<Rightarrow> task_tree \<Rightarrow> bool" where
  "walked_tree rows (Node k ts) =
     (find_row k rows \<noteq> None
      \<and> map task_id (filter non_terminal (children_of k rows)) = map root_id ts
      \<and> (\<forall>t\<in>set ts. walked_tree rows t))"

text \<open>A task the routine can revoke: its row has a task type that is not empty.\<close>

definition typed_task :: "task_row list \<Rightarrow> string \<Rightarrow> bool" where
  "typed_task rows k = (case find_row k rows of None \<Rightarrow> False | Some r \<Rightarrow> task_type r \<noteq> [])"

definition live_task :: "task_row list \<Rightarrow> string \<Rightarrow> bool" where
  "live_task rows k = (case find_row k rows of None \<Rightarrow> False | Some r \<Rightarrow> non_terminal r)"

text \<open>
  The row that the \<^verbatim>\<open>REVOKED\<close> write of the routine leaves for an existing row, and a table
  in which the tasks of a set have been revoked, each with its reason.
\<close>

definition revoked_row :: "real \<Rightarrow> string \<Rightarrow> task_row \<Rightarrow> task_row" where
  "revoked_row now reason r =
     upsert_row now None None TASK_STATUS_REVOKED 100
       (Some (Valid (JObj [(''message'', JStr reason)]))) r"

definition revoke_in :: "real \<Rightarrow> string set \<Rightarrow> (string \<Rightarrow> string) \<Rightarrow> task_row list \<Rightarrow> task_row list" where
  "revoke_in now K rf rows =
     map (\<lambda>r. if task_id r \<in> K then revoked_row now (rf (task_id r)) r else r) rows"

definition reason_for :: "string \<Rightarrow> string \<Rightarrow> string \<Rightarrow> string" where
  "reason_for k reason i = (if i = k then reason else parent_revocation_reason)"

text \<open>
  A job the engine accepts a command for: it exists, is not in a terminal state, and the
  engine does not refuse. The command is stop for a started job, cancel otherwise.
\<close>

definition commandable :: "engine \<Rightarrow> string \<Rightarrow> bool" where
  "commandable e k =
     (case jobs e k of None \<Rightarrow> False | Some job \<Rightarrow> \<not> is_terminal_job job \<and> \<not> refuses e k)"

definition command_for :: "engine \<Rightarrow> string \<Rightarrow> rq_command" where
  "command_for e k =
     (case jobs e k of
        None \<Rightarrow> Cancel
      | Some job \<Rightarrow> if job_state job = started then Stop else Cancel)"

fun interrupt_all :: "string list \<Rightarrow> engine \<Rightarrow> nat \<times> engine" where
  "interrupt_all [] e = (0, e)"
| "interrupt_all (k # ks) e =
     (case interrupt_job k e of
        (a, e1) \<Rightarrow> (case interrupt_all ks e1 of (n, e2) \<Rightarrow> ((if a then 1 else 0) + n, e2)))"

text \<open>
  The outcome of revoking the tasks \<open>ks\<close> in this order: the number of commands the engine
  accepted, and the world in which their rows are revoked and their jobs interrupted.
\<close>

definition walk_result :: "real \<Rightarrow> string list \<Rightarrow> (string \<Rightarrow> string) \<Rightarrow> world \<Rightarrow> nat \<times> world" where
  "walk_result now ks rf w =
     (fst (interrupt_all ks (rq w)),
      \<lparr>db = (db w)\<lparr>working := revoke_in now (set ks) rf (working (db w)),
                    committed := revoke_in now (set ks) rf (working (db w))\<rparr>,
       rq = snd (interrupt_all ks (rq w))\<rparr>)"

text \<open>
  A family of four tasks: a root with two children, the first of which has a child; and an
  engine in which the root's job is started, the first child's is queued and the
  grandchild's is finished (the second child has none).
\<close>

definition family_rows :: "task_row list" where
  "family_rows =
     [row_of ''r'' None ''main_analysis'' TASK_STATUS_PENDING None (Some 1) None,
      row_of ''c1'' (Some ''r'') ''album_analysis'' TASK_STATUS_STARTED None (Some 2) None,
      row_of ''g'' (Some ''c1'') ''album_batch'' TASK_STATUS_PROGRESS None (Some 3) None,
      row_of ''c2'' (Some ''r'') ''album_analysis'' TASK_STATUS_PENDING None None None]"

definition family_tree :: task_tree where
  "family_tree = Node ''r'' [Node ''c1'' [Node ''g'' []], Node ''c2'' []]"

definition family_engine :: engine where
  "family_engine =
     engine_with [''r'' \<mapsto> job_in started None, ''c1'' \<mapsto> job_in queued None,
                  ''g'' \<mapsto> job_in finished None]"

text \<open>
  A root whose only child has succeeded and has itself a pending child; and a single
  pending task whose task type is the empty string.
\<close>

definition succeeded_child_rows :: "task_row list" where
  "succeeded_child_rows =
     [row_of ''r'' None ''main_analysis'' TASK_STATUS_PENDING None (Some 1) None,
      row_of ''c'' (Some ''r'') ''album_analysis'' TASK_STATUS_SUCCESS None (Some 2) (Some 3),
      row_of ''g'' (Some ''c'') ''album_batch'' TASK_STATUS_PENDING None None None]"

definition untyped_rows :: "task_row list" where
  "untyped_rows = [row_of ''r'' None [] TASK_STATUS_PENDING None None None]"

text \<open>
  The part of a stored tree that the cancellation walks: under each node, the subtrees
  whose root is in a non-terminal status.
\<close>

fun walked_part :: "task_row list \<Rightarrow> task_tree \<Rightarrow> task_tree" where
  "walked_part rows (Node k ts) =
     Node k (map (walked_part rows) (filter (\<lambda>t. live_task rows (root_id t)) ts))"

section \<open>Lemmas about dictionaries, the table and \<^verbatim>\<open>save_task_status\<close>\<close>

lemma dict_get_set: "dict_get (dict_set d k v) k' = (if k' = k then Some v else dict_get d k')"
  by (simp add: dict_get_def dict_set_def update_conv')

lemma dict_get_pop: "dict_get (dict_pop d k) k' = (if k' = k then None else dict_get d k')"
  by (simp add: dict_get_def dict_pop_def delete_conv')

lemma str_of_nat_digit: "n < 10 \<Longrightarrow> str_of_nat n = [digit_char n]"
  by (simp add: str_of_nat.simps)

lemma str_of_nat_step: "10 \<le> n \<Longrightarrow> str_of_nat n = str_of_nat (n div 10) @ [digit_char n]"
  by (simp add: str_of_nat.simps)

lemma find_row_task_id: "find_row tid rows = Some r \<Longrightarrow> task_id r = tid"
  by (auto simp: find_row_def dest: find_Some_iff[THEN iffD1])

lemma find_row_append:
  "find_row tid (rows @ [r]) =
     (case find_row tid rows of Some x \<Rightarrow> Some x | None \<Rightarrow> if task_id r = tid then Some r else None)"
  by (induction rows) (auto simp: find_row_def)

lemma find_row_map:
  assumes "\<And>r. task_id (f r) = task_id r"
  shows "find_row tid (map f rows) = map_option f (find_row tid rows)"
  using assms by (induction rows) (auto simp: find_row_def)

lemma find_row_upsert_same:
  "find_row tid (upsert_task_status now tid parent ttype sub st prog dj rows) =
     Some (case find_row tid rows of
             None \<Rightarrow> insert_row now tid parent ttype sub st prog dj
           | Some r \<Rightarrow> upsert_row now parent sub st prog dj r)"
proof (cases "find_row tid rows")
  case None
  then show ?thesis
    by (simp add: upsert_task_status_def find_row_append insert_row_def)
next
  case (Some r)
  have tid: "task_id r = tid"
    using Some by (rule find_row_task_id)
  have "find_row tid (map (\<lambda>r. if task_id r = tid then upsert_row now parent sub st prog dj r else r) rows)
      = map_option (\<lambda>r. if task_id r = tid then upsert_row now parent sub st prog dj r else r) (find_row tid rows)"
    by (rule find_row_map) (simp add: upsert_row_def)
  with Some tid show ?thesis
    by (simp add: upsert_task_status_def)
qed

lemma find_row_upsert_other:
  assumes ne: "tid' \<noteq> tid"
  shows "find_row tid' (upsert_task_status now tid parent ttype sub st prog dj rows) = find_row tid' rows"
proof (cases "find_row tid rows")
  case None
  with ne show ?thesis
    by (auto simp add: upsert_task_status_def find_row_append insert_row_def split: option.splits)
next
  case (Some r)
  have "find_row tid' (map (\<lambda>r. if task_id r = tid then upsert_row now parent sub st prog dj r else r) rows)
      = map_option (\<lambda>r. if task_id r = tid then upsert_row now parent sub st prog dj r else r) (find_row tid' rows)"
    by (rule find_row_map) (simp add: upsert_row_def)
  moreover have "\<And>x. find_row tid' rows = Some x \<Longrightarrow> task_id x = tid'"
    by (rule find_row_task_id)
  ultimately show ?thesis using Some ne
    by (cases "find_row tid' rows") (auto simp add: upsert_task_status_def)
qed

lemma save_task_status_healthy:
  "fault c = NoFault \<Longrightarrow>
   save_task_status now tid ttype st parent sub prog det c =
     Inr (c\<lparr>working := upsert_task_status now tid parent ttype sub st prog (prepare_details st det) (working c),
           committed := upsert_task_status now tid parent ttype sub st prog (prepare_details st det) (working c)\<rparr>)"
  by (simp add: save_task_status_def get_db_def db_commit_def Let_def)

lemma persisted_details_save:
  assumes "fault c = NoFault"
    and "save_task_status now tid ttype st parent sub prog det c = Inr c'"
  shows "persisted_details tid c' = prepare_details st det"
proof -
  have c': "committed c' = upsert_task_status now tid parent ttype sub st prog (prepare_details st det) (working c)"
    using assms by (auto simp add: save_task_status_healthy)
  show ?thesis
    unfolding persisted_details_def c' find_row_upsert_same
    by (simp add: insert_row_def upsert_row_def split: option.splits)
qed

subsection \<open>The cap on the stored log\<close>

lemma cap_log_long:
  assumes "st \<noteq> TASK_STATUS_SUCCESS" "dict_get d ''log'' = Some (JList xs)" "length xs > 10"
  shows "dict_get (cap_log st d) ''log'' = Some (JList (drop (length xs - 10) xs))"
    and "dict_get (cap_log st d) ''log_storage_info'' = Some (JStr (truncation_note (length xs)))"
  using assms by (simp_all add: cap_log_def is_list_def MAX_LOG_ENTRIES_STORED_def dict_get_set)

lemma cap_log_short:
  assumes "st \<noteq> TASK_STATUS_SUCCESS" "dict_get d ''log'' = Some (JList xs)" "length xs \<le> 10"
  shows "cap_log st d = dict_pop d ''log_storage_info''"
    and "dict_get (cap_log st d) ''log'' = Some (JList xs)"
    and "dict_get (cap_log st d) ''log_storage_info'' = None"
  using assms by (simp_all add: cap_log_def is_list_def MAX_LOG_ENTRIES_STORED_def dict_get_pop)

lemma cap_log_success:
  shows "dict_get (cap_log TASK_STATUS_SUCCESS d) ''log_storage_info'' = None"
    and "dict_get (cap_log TASK_STATUS_SUCCESS d) ''log'' =
          (case dict_get d ''log'' of
             Some (JList (x # xs)) \<Rightarrow> Some (JList (x # xs))
           | _ \<Rightarrow> Some (JList [JStr ''Task completed successfully.'']))"
  by (auto simp add: cap_log_def is_list_def dict_get_pop dict_get_set Let_def
      split: option.splits json.splits list.splits)

lemma truncation_note_15:
  "truncation_note 15 = ''Log in DB truncated to last 10 entries. Original length: 15.''"
  by (simp add: truncation_note_def MAX_LOG_ENTRIES_STORED_def str_of_nat_digit str_of_nat_step
      digit_char_def)

text \<open>
  Claim C6, as the code has it. A call of \<^verbatim>\<open>save_task_status\<close> with a dictionary of
  details, on a connection that raises nothing, persists a dictionary \<open>d'\<close> such that:
  when the incoming status is not \<^verbatim>\<open>SUCCESS\<close> and the log is a list of more than ten
  entries, the persisted log is its last ten entries and \<^verbatim>\<open>log_storage_info\<close> records the
  original length; when the status is not \<^verbatim>\<open>SUCCESS\<close> and the log has at most ten entries,
  the log is persisted unchanged and there is no annotation; when the status is
  \<^verbatim>\<open>SUCCESS\<close>, the annotation is cleared and a missing, non-list or empty log is replaced
  by the single entry "Task completed successfully." (a non-empty log is kept whole).
\<close>

theorem save_task_status_log_cap:
  assumes "fault c = NoFault"
  shows "\<exists>c' d'.
      save_task_status now tid ttype st parent sub prog (Some (JObj d)) c = Inr c'
    \<and> persisted_details tid c' = Some (Valid (JObj d'))
    \<and> (\<forall>xs. st \<noteq> TASK_STATUS_SUCCESS \<and> dict_get d ''log'' = Some (JList xs) \<and> length xs > 10 \<longrightarrow>
           dict_get d' ''log'' = Some (JList (drop (length xs - 10) xs))
         \<and> length (drop (length xs - 10) xs) = 10
         \<and> dict_get d' ''log_storage_info'' = Some (JStr (truncation_note (length xs))))
    \<and> (\<forall>xs. st \<noteq> TASK_STATUS_SUCCESS \<and> dict_get d ''log'' = Some (JList xs) \<and> length xs \<le> 10 \<longrightarrow>
           dict_get d' ''log'' = Some (JList xs)
         \<and> dict_get d' ''log_storage_info'' = None
         \<and> d' = dict_pop d ''log_storage_info'')
    \<and> (st = TASK_STATUS_SUCCESS \<longrightarrow>
           dict_get d' ''log_storage_info'' = None
         \<and> dict_get d' ''log'' =
             (case dict_get d ''log'' of
                Some (JList (x # xs)) \<Rightarrow> Some (JList (x # xs))
              | _ \<Rightarrow> Some (JList [JStr ''Task completed successfully.''])))"
proof -
  obtain c' where c': "save_task_status now tid ttype st parent sub prog (Some (JObj d)) c = Inr c'"
    using assms by (simp add: save_task_status_healthy)
  have p: "persisted_details tid c' = Some (Valid (JObj (cap_log st d)))"
    using persisted_details_save[OF assms c'] by (simp add: prepare_details_def json_dumps_def)
  show ?thesis
    apply (rule exI[of _ c'], rule exI[of _ "cap_log st d"])
    apply (intro conjI allI impI c' p)
    using cap_log_long cap_log_short cap_log_success by auto
qed

text \<open>
  Witness for C6: fifteen entries written with status \<^verbatim>\<open>PROGRESS\<close> into an empty table
  are persisted as the last ten with the annotation.
\<close>

theorem save_task_status_log_cap_witness:
  "fault (healthy []) = NoFault
   \<and> (\<exists>c' d'. save_task_status 7 ''t1'' ''main_analysis'' TASK_STATUS_PROGRESS None None 50
                  (Some (JObj [(''log'', JList fifteen)])) (healthy []) = Inr c'
        \<and> persisted_details ''t1'' c' = Some (Valid (JObj d'))
        \<and> dict_get d' ''log'' = Some (JList (drop 5 fifteen))
        \<and> dict_get d' ''log_storage_info''
            = Some (JStr ''Log in DB truncated to last 10 entries. Original length: 15.''))"
proof -
  have h: "fault (healthy []) = NoFault"
    by (simp add: healthy_def)
  have pre: "TASK_STATUS_PROGRESS \<noteq> TASK_STATUS_SUCCESS
      \<and> dict_get [(''log'', JList fifteen)] ''log'' = Some (JList fifteen) \<and> length fifteen > 10"
    by (simp add: TASK_STATUS_PROGRESS_def TASK_STATUS_SUCCESS_def dict_get_def fifteen_def)
  have len: "length fifteen = 15"
    by (simp add: fifteen_def)
  from save_task_status_log_cap[OF h, of 7 "''t1''" "''main_analysis''" TASK_STATUS_PROGRESS
      None None 50 "[(''log'', JList fifteen)]"]
  obtain c' d' where
    "save_task_status 7 ''t1'' ''main_analysis'' TASK_STATUS_PROGRESS None None 50
        (Some (JObj [(''log'', JList fifteen)])) (healthy []) = Inr c'"
    "persisted_details ''t1'' c' = Some (Valid (JObj d'))"
    "\<forall>xs. TASK_STATUS_PROGRESS \<noteq> TASK_STATUS_SUCCESS
        \<and> dict_get [(''log'', JList fifteen)] ''log'' = Some (JList xs) \<and> length xs > 10 \<longrightarrow>
           dict_get d' ''log'' = Some (JList (drop (length xs - 10) xs))
         \<and> length (drop (length xs - 10) xs) = 10
         \<and> dict_get d' ''log_storage_info'' = Some (JStr (truncation_note (length xs)))"
    by blast
  with pre len truncation_note_15 h show ?thesis
    by auto
qed

text \<open>
  Counterexample to C6 as stated (every call): with status \<^verbatim>\<open>SUCCESS\<close> the same fifteen
  entries are persisted whole, with no annotation.
\<close>

theorem save_task_status_success_keeps_long_log:
  "save_task_status 7 ''t1'' ''main_analysis'' TASK_STATUS_SUCCESS None None 100
      (Some (JObj [(''log'', JList fifteen)])) (healthy [])
    = Inr (healthy
       [\<lparr>task_id = ''t1'', parent_task_id = None, task_type = ''main_analysis'',
         sub_type_identifier = None, status = Some ''SUCCESS'', progress = 100,
         details = Some (Valid (JObj [(''log'', JList fifteen)])), timestamp = 7,
         start_time = Some 7, end_time = Some 7\<rparr>])
   \<and> length fifteen = 15"
  by (simp add: save_task_status_def Let_def get_db_def db_commit_def healthy_def prepare_details_def
      json_dumps_def cap_log_def is_list_def dict_get_def dict_set_def dict_pop_def fifteen_def
      upsert_task_status_def find_row_def insert_row_def terminal_statuses_def
      TASK_STATUS_SUCCESS_def TASK_STATUS_FAILURE_def TASK_STATUS_REVOKED_def)

subsection \<open>Start and end times over a sequence of writes\<close>

lemma do_call_healthy:
  assumes "fault c = NoFault"
  shows "\<exists>c'. do_call tid x c = Inr c' \<and> fault c' = NoFault \<and> committed c' = working c'
     \<and> stored_start_time tid c' = Some (case stored_start_time tid c of Some t \<Rightarrow> t | None \<Rightarrow> at_time x)
     \<and> stored_end_time tid c' =
          (case stored_end_time tid c of Some t \<Rightarrow> Some t
           | None \<Rightarrow> if is_terminal_call x then Some (at_time x) else None)"
  using assms
  by (auto simp add: do_call_def save_task_status_healthy stored_start_time_def stored_end_time_def
      find_row_upsert_same insert_row_def upsert_row_def is_terminal_call_def split: option.splits)

lemma save_sequence_append:
  "save_sequence tid (xs @ ys) c =
     (case save_sequence tid xs c of Inl e \<Rightarrow> Inl e | Inr c' \<Rightarrow> save_sequence tid ys c')"
  by (induction xs arbitrary: c) (auto split: sum.splits)

lemma save_sequence_healthy:
  assumes "fault c = NoFault"
  shows "\<exists>c'. save_sequence tid xs c = Inr c' \<and> fault c' = NoFault
     \<and> stored_start_time tid c' =
          (case xs of [] \<Rightarrow> stored_start_time tid c
           | x # _ \<Rightarrow> Some (case stored_start_time tid c of Some t \<Rightarrow> t | None \<Rightarrow> at_time x))
     \<and> stored_end_time tid c' =
          (case stored_end_time tid c of Some t \<Rightarrow> Some t
           | None \<Rightarrow> map_option at_time (find is_terminal_call xs))"
  using assms
proof (induction xs arbitrary: c)
  case Nil
  then show ?case by (simp split: option.splits)
next
  case (Cons x xs)
  obtain c1 where c1: "do_call tid x c = Inr c1" "fault c1 = NoFault"
      "stored_start_time tid c1 = Some (case stored_start_time tid c of Some t \<Rightarrow> t | None \<Rightarrow> at_time x)"
      "stored_end_time tid c1 =
          (case stored_end_time tid c of Some t \<Rightarrow> Some t
           | None \<Rightarrow> if is_terminal_call x then Some (at_time x) else None)"
    using do_call_healthy[OF Cons.prems, of tid x] by blast
  obtain c' where c': "save_sequence tid xs c1 = Inr c'" "fault c' = NoFault"
      "stored_start_time tid c' =
          (case xs of [] \<Rightarrow> stored_start_time tid c1
           | x # _ \<Rightarrow> Some (case stored_start_time tid c1 of Some t \<Rightarrow> t | None \<Rightarrow> at_time x))"
      "stored_end_time tid c' =
          (case stored_end_time tid c1 of Some t \<Rightarrow> Some t
           | None \<Rightarrow> map_option at_time (find is_terminal_call xs))"
    using Cons.IH[OF c1(2)] by blast
  show ?case
    apply (rule exI[of _ c'])
    using c1 c' by (auto split: option.splits list.splits)
qed

text \<open>
  Claim C5. For a sequence \<open>x # xs\<close> of writes to one task id on a connection that raises
  nothing: after the first write \<^verbatim>\<open>start_time\<close> is set (to the stored value if there was
  one, else to the first write's clock reading), and after the whole sequence, as after
  every non-empty prefix of it, \<^verbatim>\<open>start_time\<close> has that same value; \<^verbatim>\<open>end_time\<close>
  stays what was stored if it was set, and otherwise is the clock reading of the first
  write of the sequence whose status is terminal (unset if there is none); once set after
  a prefix, it is the same after the whole sequence.
\<close>

theorem save_task_status_times_written_once:
  assumes "fault c = NoFault"
  shows "\<exists>c1 cN.
       do_call tid x c = Inr c1
     \<and> save_sequence tid (x # xs) c = Inr cN
     \<and> stored_start_time tid c1 = Some (case stored_start_time tid c of Some t \<Rightarrow> t | None \<Rightarrow> at_time x)
     \<and> stored_start_time tid cN = stored_start_time tid c1
     \<and> stored_end_time tid cN =
          (case stored_end_time tid c of Some t \<Rightarrow> Some t
           | None \<Rightarrow> map_option at_time (find is_terminal_call (x # xs)))
     \<and> (\<forall>ys zs. x # xs = ys @ zs \<and> ys \<noteq> [] \<longrightarrow>
           (\<exists>cm. save_sequence tid ys c = Inr cm
              \<and> stored_start_time tid cN = stored_start_time tid cm
              \<and> (stored_end_time tid cm \<noteq> None \<longrightarrow> stored_end_time tid cN = stored_end_time tid cm)))"
proof -
  obtain c1 where c1: "do_call tid x c = Inr c1" "fault c1 = NoFault"
      "stored_start_time tid c1 = Some (case stored_start_time tid c of Some t \<Rightarrow> t | None \<Rightarrow> at_time x)"
    using do_call_healthy[OF assms, of tid x] by blast
  obtain cN where cN: "save_sequence tid (x # xs) c = Inr cN"
      "stored_start_time tid cN = Some (case stored_start_time tid c of Some t \<Rightarrow> t | None \<Rightarrow> at_time x)"
      "stored_end_time tid cN =
          (case stored_end_time tid c of Some t \<Rightarrow> Some t
           | None \<Rightarrow> map_option at_time (find is_terminal_call (x # xs)))"
    using save_sequence_healthy[OF assms, of tid "x # xs"] by auto
  have later: "\<exists>cm. save_sequence tid ys c = Inr cm
              \<and> stored_start_time tid cN = stored_start_time tid cm
              \<and> (stored_end_time tid cm \<noteq> None \<longrightarrow> stored_end_time tid cN = stored_end_time tid cm)"
    if split: "x # xs = ys @ zs" and ne: "ys \<noteq> []" for ys zs
  proof -
    obtain y ys' where ys: "ys = y # ys'" using ne by (cases ys) auto
    with split have y: "y = x" by simp
    obtain cm where cm: "save_sequence tid ys c = Inr cm" "fault cm = NoFault"
      "stored_start_time tid cm = Some (case stored_start_time tid c of Some t \<Rightarrow> t | None \<Rightarrow> at_time x)"
      using save_sequence_healthy[OF assms, of tid ys] ys y by auto
    obtain cz where cz: "save_sequence tid zs cm = Inr cz"
      "stored_end_time tid cz =
          (case stored_end_time tid cm of Some t \<Rightarrow> Some t
           | None \<Rightarrow> map_option at_time (find is_terminal_call zs))"
      using save_sequence_healthy[OF cm(2), of tid zs] by auto
    have "save_sequence tid (ys @ zs) c = Inr cz"
      using cm(1) cz(1) by (simp add: save_sequence_append)
    with cN(1) split have "cz = cN" by simp
    with cm cz cN show ?thesis by auto
  qed
  show ?thesis
    apply (rule exI[of _ c1], rule exI[of _ cN])
    using c1 cN later by auto
qed


text \<open>
  Witness for C5: written as \<^verbatim>\<open>PENDING\<close> at time 1, \<^verbatim>\<open>SUCCESS\<close> at time 5 and
  \<^verbatim>\<open>REVOKED\<close> at time 9, a new task keeps start time 1 and end time 5.
\<close>

theorem save_task_status_times_written_once_witness:
  "fault (healthy []) = NoFault
   \<and> (\<exists>cN. save_sequence ''t1''
          [\<lparr>at_time = 1, call_task_type = ''main_analysis'', call_status = TASK_STATUS_PENDING,
            call_parent = None, call_sub_type = None, call_progress = 0, call_details = None\<rparr>,
           \<lparr>at_time = 5, call_task_type = ''main_analysis'', call_status = TASK_STATUS_SUCCESS,
            call_parent = None, call_sub_type = None, call_progress = 100, call_details = None\<rparr>,
           \<lparr>at_time = 9, call_task_type = ''main_analysis'', call_status = TASK_STATUS_REVOKED,
            call_parent = None, call_sub_type = None, call_progress = 100, call_details = None\<rparr>]
          (healthy []) = Inr cN
        \<and> stored_start_time ''t1'' cN = Some 1
        \<and> stored_end_time ''t1'' cN = Some 5)"
proof -
  have h: "fault (healthy []) = NoFault"
    by (simp add: healthy_def)
  have s0: "stored_start_time ''t1'' (healthy []) = None" "stored_end_time ''t1'' (healthy []) = None"
    by (simp_all add: stored_start_time_def stored_end_time_def healthy_def find_row_def)
  have t: "\<not> is_terminal_call \<lparr>at_time = 1, call_task_type = ''main_analysis'', call_status = TASK_STATUS_PENDING,
            call_parent = None, call_sub_type = None, call_progress = 0, call_details = None\<rparr>"
     "is_terminal_call \<lparr>at_time = 5, call_task_type = ''main_analysis'', call_status = TASK_STATUS_SUCCESS,
            call_parent = None, call_sub_type = None, call_progress = 100, call_details = None\<rparr>"
    by (simp_all add: is_terminal_call_def terminal_statuses_def TASK_STATUS_PENDING_def
        TASK_STATUS_SUCCESS_def TASK_STATUS_FAILURE_def TASK_STATUS_REVOKED_def)
  show ?thesis
    using save_task_status_times_written_once[OF h, of "''t1''"
      "\<lparr>at_time = 1, call_task_type = ''main_analysis'', call_status = TASK_STATUS_PENDING,
            call_parent = None, call_sub_type = None, call_progress = 0, call_details = None\<rparr>"
      "[\<lparr>at_time = 5, call_task_type = ''main_analysis'', call_status = TASK_STATUS_SUCCESS,
            call_parent = None, call_sub_type = None, call_progress = 100, call_details = None\<rparr>,
           \<lparr>at_time = 9, call_task_type = ''main_analysis'', call_status = TASK_STATUS_REVOKED,
            call_parent = None, call_sub_type = None, call_progress = 100, call_details = None\<rparr>]"]
      h s0 t
    by auto
qed

subsection \<open>Errors of the store during a write\<close>

lemma save_failed_committed: "committed (save_failed c) = committed c"
  by (simp add: save_failed_def db_rollback_def)

text \<open>
  Claim C3, as the code has it. When \<^verbatim>\<open>cur.execute\<close> or \<^verbatim>\<open>db.commit\<close> raises during
  \<^verbatim>\<open>save_task_status\<close>, the function rolls back (nothing of the write is committed, and
  unless the rollback raises too the open transaction is discarded) and returns normally
  to its caller: the error is not surfaced. (A failure of \<^verbatim>\<open>get_db\<close> to connect, which
  happens before the \<^verbatim>\<open>try\<close>, is raised.)
\<close>

theorem save_task_status_swallows_store_errors:
  "(fault c = ExecuteFails \<or> fault c = CommitFails \<longrightarrow>
      (\<exists>c'. save_task_status now tid ttype st parent sub prog det c = Inr c'
         \<and> committed c' = committed c
         \<and> (\<not> rollback_fails c \<longrightarrow> working c' = committed c)))
   \<and> (fault c = ConnectFails \<longrightarrow>
        save_task_status now tid ttype st parent sub prog det c = Inl OperationalError)"
  by (auto simp add: save_task_status_def get_db_def Let_def db_commit_def save_failed_def
      db_rollback_def)

text \<open>Witness for C3: a commit that fails, and a connection that cannot be opened.\<close>

theorem save_task_status_swallows_store_errors_witness:
  "(fault ((healthy [])\<lparr>fault := CommitFails\<rparr>) = ExecuteFails
      \<or> fault ((healthy [])\<lparr>fault := CommitFails\<rparr>) = CommitFails)
   \<and> (\<exists>c'. save_task_status 7 ''t1'' ''main_analysis'' TASK_STATUS_REVOKED None None 100
               (Some (JObj [(''message'', JStr ''stop'')])) ((healthy [])\<lparr>fault := CommitFails\<rparr>) = Inr c'
         \<and> committed c' = [] \<and> working c' = [])
   \<and> fault ((healthy [])\<lparr>fault := ConnectFails\<rparr>) = ConnectFails
   \<and> save_task_status 7 ''t1'' ''main_analysis'' TASK_STATUS_REVOKED None None 100
        (Some (JObj [(''message'', JStr ''stop'')])) ((healthy [])\<lparr>fault := ConnectFails\<rparr>)
        = Inl OperationalError"
  using save_task_status_swallows_store_errors[of "(healthy [])\<lparr>fault := CommitFails\<rparr>"
      7 "''t1''" "''main_analysis''" TASK_STATUS_REVOKED None None 100
      "Some (JObj [(''message'', JStr ''stop'')])"]
    save_task_status_swallows_store_errors[of "(healthy [])\<lparr>fault := ConnectFails\<rparr>"
      7 "''t1''" "''main_analysis''" TASK_STATUS_REVOKED None None 100
      "Some (JObj [(''message'', JStr ''stop'')])"]
  by (auto simp add: healthy_def)

text \<open>
  Counterexample to C3 as stated: the \<^verbatim>\<open>REVOKED\<close> write of a cancellation on a store
  whose \<^verbatim>\<open>execute\<close> (or \<^verbatim>\<open>commit\<close>) raises returns normally, and nothing is stored.
\<close>

theorem save_task_status_error_not_surfaced:
  "save_task_status 7 ''t1'' ''main_analysis'' TASK_STATUS_REVOKED None None 100
      (Some (JObj [(''message'', JStr ''stop'')])) ((healthy [])\<lparr>fault := ExecuteFails\<rparr>)
     = Inr ((healthy [])\<lparr>fault := ExecuteFails\<rparr>)
   \<and> save_task_status 7 ''t1'' ''main_analysis'' TASK_STATUS_REVOKED None None 100
      (Some (JObj [(''message'', JStr ''stop'')])) ((healthy [])\<lparr>fault := CommitFails\<rparr>)
     = Inr ((healthy [])\<lparr>fault := CommitFails\<rparr>)"
  by (simp add: save_task_status_def get_db_def Let_def db_commit_def save_failed_def
      db_rollback_def healthy_def)


section \<open>Status reconciliation\<close>


lemma load_db_details_typed:
  "object_or_absent t \<Longrightarrow> \<exists>d. load_db_details t = Inr d"
  by (auto simp add: object_or_absent_def load_db_details_def truthy_text_def json_loads_def
      split: option.splits stored_text.splits json.splits)

lemma get_task_info_from_db_healthy:
  "fault c = NoFault \<Longrightarrow>
   get_task_info_from_db now tid c =
     Inr (map_option (\<lambda>r. (r, running_time_of now r)) (find_row tid (working c)))"
  by (simp add: get_task_info_from_db_def db_select_def get_db_def split: option.splits)

lemma tidy_response_keeps:
  "state (tidy_response r) = state r"
  "status_message (tidy_response r) = status_message r"
  "resp_progress (tidy_response r) = resp_progress r"
  by (simp_all add: tidy_response_def Let_def split: option.splits)

lemma stored_view_revoked:
  assumes "status row = Some TASK_STATUS_REVOKED" "object_or_absent (details row)"
  shows "\<exists>r. stored_view row rt response = Inr r \<and> state r = Some ''REVOKED''
     \<and> status_message r = ''Task revoked.'' \<and> resp_progress r = 100"
proof -
  obtain d where d: "load_db_details (details row) = Inr d"
    using load_db_details_typed[OF assms(2)] by blast
  show ?thesis
    using assms(1) d by (simp add: stored_view_def Let_def)
qed

lemma stored_view_revoked_result:
  assumes "status row = Some TASK_STATUS_REVOKED" "stored_view row rt response = Inr r"
  shows "state r = Some ''REVOKED'' \<and> status_message r = ''Task revoked.'' \<and> resp_progress r = 100"
  using assms by (auto simp add: stored_view_def Let_def split: sum.splits)

text \<open>
  The override of a revoked row. When the store answers and the row of the task has status
  \<^verbatim>\<open>REVOKED\<close>, then, whatever the engine holds for the task: if the stored details are
  absent or a JSON object, the reconciliation returns, with state \<^verbatim>\<open>REVOKED\<close>, message
  "Task revoked." and progress 100; and whatever the stored details are, every response it
  returns has that state, message and progress.
\<close>

theorem revoked_row_overrides_live_state:
  assumes "fault (db w) = NoFault"
    and "find_row tid (working (db w)) = Some row"
    and "status row = Some TASK_STATUS_REVOKED"
  shows "(object_or_absent (details row) \<longrightarrow>
            (\<exists>resp. get_task_status_endpoint now tid w = Inr (resp, 200)
               \<and> state resp = Some ''REVOKED''
               \<and> status_message resp = ''Task revoked.''
               \<and> resp_progress resp = 100))
       \<and> (\<forall>resp code. get_task_status_endpoint now tid w = Inr (resp, code) \<longrightarrow>
              code = 200
            \<and> state resp = Some ''REVOKED''
            \<and> status_message resp = ''Task revoked.''
            \<and> resp_progress resp = 100)"
proof -
  have first: "object_or_absent (details row) \<longrightarrow>
            (\<exists>resp. get_task_status_endpoint now tid w = Inr (resp, 200)
               \<and> state resp = Some ''REVOKED''
               \<and> status_message resp = ''Task revoked.''
               \<and> resp_progress resp = 100)"
  proof
    assume typed: "object_or_absent (details row)"
    obtain r where r: "stored_view row (running_time_of now row) (live_view (rq w) (initial_response tid)) = Inr r"
        "state r = Some ''REVOKED''" "status_message r = ''Task revoked.''" "resp_progress r = 100"
      using stored_view_revoked[OF assms(3) typed] by blast
    have "get_task_status_endpoint now tid w = Inr (tidy_response r, 200)"
      using assms(1,2) r(1)
      by (simp add: get_task_status_endpoint_def Let_def get_task_info_from_db_healthy)
    with r show "\<exists>resp. get_task_status_endpoint now tid w = Inr (resp, 200)
               \<and> state resp = Some ''REVOKED''
               \<and> status_message resp = ''Task revoked.''
               \<and> resp_progress resp = 100"
      by (simp add: tidy_response_keeps)
  qed
  have second: "\<forall>resp code. get_task_status_endpoint now tid w = Inr (resp, code) \<longrightarrow>
              code = 200
            \<and> state resp = Some ''REVOKED''
            \<and> status_message resp = ''Task revoked.''
            \<and> resp_progress resp = 100"
  proof (intro allI impI)
    fix resp code
    assume ret: "get_task_status_endpoint now tid w = Inr (resp, code)"
    have ep: "get_task_status_endpoint now tid w =
        (case stored_view row (running_time_of now row) (live_view (rq w) (initial_response tid)) of
           Inl e \<Rightarrow> Inl e | Inr r \<Rightarrow> Inr (tidy_response r, 200))"
      using assms(1,2)
      by (simp add: get_task_status_endpoint_def Let_def get_task_info_from_db_healthy)
    obtain r where r: "stored_view row (running_time_of now row) (live_view (rq w) (initial_response tid)) = Inr r"
        "resp = tidy_response r" "code = 200"
      using ret unfolding ep by (auto split: sum.splits)
    show "code = 200
            \<and> state resp = Some ''REVOKED''
            \<and> status_message resp = ''Task revoked.''
            \<and> resp_progress resp = 100"
      using stored_view_revoked_result[OF assms(3) r(1)] r(2,3)
      by (simp add: tidy_response_keeps)
  qed
  show ?thesis
    by (intro conjI first second)
qed

text \<open>An instance: a revoked row whose job the engine still reports as started.\<close>

theorem revoked_row_overrides_live_state_witness:
  "fault (db \<lparr>db = healthy [row_of ''t1'' None ''main_analysis'' TASK_STATUS_REVOKED None (Some 2) (Some 9)],
              rq = engine_with [''t1'' \<mapsto> job_in started (Some 55)]\<rparr>) = NoFault
   \<and> job_fetch ''t1'' (engine_with [''t1'' \<mapsto> job_in started (Some 55)]) = Some (job_in started (Some 55))
   \<and> (\<exists>resp. get_task_status_endpoint 10 ''t1''
          \<lparr>db = healthy [row_of ''t1'' None ''main_analysis'' TASK_STATUS_REVOKED None (Some 2) (Some 9)],
           rq = engine_with [''t1'' \<mapsto> job_in started (Some 55)]\<rparr> = Inr (resp, 200)
        \<and> state resp = Some ''REVOKED''
        \<and> status_message resp = ''Task revoked.''
        \<and> resp_progress resp = 100)"
proof -
  let ?row = "row_of ''t1'' None ''main_analysis'' TASK_STATUS_REVOKED None (Some 2) (Some 9)"
  let ?w = "\<lparr>db = healthy [?row], rq = engine_with [''t1'' \<mapsto> job_in started (Some 55)]\<rparr>"
  have a: "fault (db ?w) = NoFault"
    by (simp add: healthy_def)
  have b: "find_row ''t1'' (working (db ?w)) = Some ?row"
    by (simp add: healthy_def find_row_def row_of_def)
  have c: "status ?row = Some TASK_STATUS_REVOKED"
    by (simp add: row_of_def)
  have d: "object_or_absent (details ?row)"
    by (simp add: row_of_def object_or_absent_def)
  have e: "job_fetch ''t1'' (engine_with [''t1'' \<mapsto> job_in started (Some 55)]) = Some (job_in started (Some 55))"
    by (simp add: job_fetch_def engine_with_def)
  show ?thesis
    using revoked_row_overrides_live_state[OF a b c, of 10] a d e by simp
qed



text \<open>
  Claim C2 at a revoked row whose details \<^verbatim>\<open>save_task_status\<close> stored from a list, and at
  one whose details are the malformed text \<^verbatim>\<open>{oops\<close>, the engine reporting the job as
  started: the reconciliation raises \<^verbatim>\<open>TypeError\<close>, respectively \<^verbatim>\<open>JSONDecodeError\<close>,
  before it reaches the override.
\<close>

theorem revoked_row_with_unreadable_details_raises:
  "save_task_status 5 ''t1'' ''main_analysis'' TASK_STATUS_REVOKED None None 100
      (Some (JList [JInt 1])) (healthy [])
     = Inr (healthy [(row_of ''t1'' None ''main_analysis'' TASK_STATUS_REVOKED
                        (Some (Valid (JList [JInt 1]))) (Some 5) (Some 5))
                      \<lparr>progress := 100, timestamp := 5\<rparr>])
   \<and> get_task_status_endpoint 10 ''t1''
        \<lparr>db = healthy [(row_of ''t1'' None ''main_analysis'' TASK_STATUS_REVOKED
                           (Some (Valid (JList [JInt 1]))) (Some 5) (Some 5))
                         \<lparr>progress := 100, timestamp := 5\<rparr>],
         rq = engine_with [''t1'' \<mapsto> job_in started (Some 55)]\<rparr>
     = Inl TypeError
   \<and> get_task_status_endpoint 10 ''t1''
        \<lparr>db = healthy [row_of ''t1'' None ''main_analysis'' TASK_STATUS_REVOKED
                           (Some (Invalid ''{oops'')) (Some 5) (Some 5)],
         rq = engine_with [''t1'' \<mapsto> job_in started (Some 55)]\<rparr>
     = Inl JSONDecodeError"
  by (simp add: save_task_status_def Let_def get_db_def db_commit_def healthy_def
      prepare_details_def json_dumps_def upsert_task_status_def find_row_def insert_row_def
      row_of_def terminal_statuses_def TASK_STATUS_SUCCESS_def TASK_STATUS_FAILURE_def
      TASK_STATUS_REVOKED_def get_task_status_endpoint_def get_task_info_from_db_def
      db_select_def stored_view_def load_db_details_def truthy_text_def json_loads_def
      live_view_def initial_response_def job_fetch_def engine_with_def job_in_def)







text \<open>
  Claim C8 at a row whose details are the malformed text \<^verbatim>\<open>{oops\<close>: the status
  reconciliation raises \<^verbatim>\<open>JSONDecodeError\<close>, while the active-task view returns the raw
  text with its parse-error marker.
\<close>

theorem malformed_details_break_status_endpoint:
  "get_task_status_endpoint 10 ''t1''
      \<lparr>db = healthy [row_of ''t1'' None ''main_analysis'' TASK_STATUS_PROGRESS
                        (Some (Invalid ''{oops'')) (Some 2) None],
       rq = engine_with Map.empty\<rparr>
     = Inl JSONDecodeError
   \<and> get_active_tasks_endpoint 10
        (healthy [row_of ''t1'' None ''main_analysis'' TASK_STATUS_PROGRESS
                    (Some (Invalid ''{oops'')) (Some 2) None])
     = Inr (Some \<lparr>item_row = row_of ''t1'' None ''main_analysis'' TASK_STATUS_PROGRESS
                                (Some (Invalid ''{oops'')) (Some 2) None,
                   item_details = ParsedDetails (JObj [(''raw_details'', JStr ''{oops''),
                                        (''error'', JStr ''Failed to parse details JSON.'')]),
                   item_running_time_seconds = 8\<rparr>)"
  by (simp add: get_task_status_endpoint_def Let_def get_task_info_from_db_def db_select_def
      get_db_def healthy_def find_row_def live_view_def initial_response_def job_fetch_def
      engine_with_def stored_view_def load_db_details_def truthy_text_def json_loads_def row_of_def
      get_active_tasks_endpoint_def active_task_details_def active_running_time_def
      active_statuses_def TASK_STATUS_PROGRESS_def TASK_STATUS_PENDING_def TASK_STATUS_STARTED_def)

section \<open>Running time\<close>

text \<open>
  Claim C9 at a root task written as \<^verbatim>\<open>STARTED\<close> at time 2, \<^verbatim>\<open>REVOKED\<close> at time 5 and
  \<^verbatim>\<open>PROGRESS\<close> at time 6 (a worker reporting after the cancellation), read at time 10:
  its row is active with start time 2 and end time 5; the active-task view reports a
  running time of 8, \<^verbatim>\<open>get_task_info_from_db\<close> reports 3.
\<close>

theorem active_view_ignores_end_time:
  "save_sequence ''t1''
      [\<lparr>at_time = 2, call_task_type = ''main_analysis'', call_status = TASK_STATUS_STARTED,
        call_parent = None, call_sub_type = None, call_progress = 0, call_details = None\<rparr>,
       \<lparr>at_time = 5, call_task_type = ''main_analysis'', call_status = TASK_STATUS_REVOKED,
        call_parent = None, call_sub_type = None, call_progress = 100, call_details = None\<rparr>,
       \<lparr>at_time = 6, call_task_type = ''main_analysis'', call_status = TASK_STATUS_PROGRESS,
        call_parent = None, call_sub_type = None, call_progress = 40, call_details = None\<rparr>]
      (healthy [])
     = Inr (healthy [(row_of ''t1'' None ''main_analysis'' TASK_STATUS_PROGRESS None (Some 2) (Some 5))
                      \<lparr>timestamp := 6\<rparr>])
   \<and> get_active_tasks_endpoint 10
        (healthy [(row_of ''t1'' None ''main_analysis'' TASK_STATUS_PROGRESS None (Some 2) (Some 5))
                      \<lparr>timestamp := 6\<rparr>])
     = Inr (Some \<lparr>item_row = (row_of ''t1'' None ''main_analysis'' TASK_STATUS_PROGRESS None
                                 (Some 2) (Some 5))\<lparr>timestamp := 6\<rparr>,
                   item_details = NoDetails, item_running_time_seconds = 8\<rparr>)
   \<and> get_task_info_from_db 10 ''t1''
        (healthy [(row_of ''t1'' None ''main_analysis'' TASK_STATUS_PROGRESS None (Some 2) (Some 5))
                      \<lparr>timestamp := 6\<rparr>])
     = Inr (Some ((row_of ''t1'' None ''main_analysis'' TASK_STATUS_PROGRESS None (Some 2) (Some 5))
                      \<lparr>timestamp := 6\<rparr>, 3))"
  by (simp add: do_call_def save_task_status_def Let_def get_db_def db_commit_def healthy_def
      prepare_details_def upsert_task_status_def upsert_row_def find_row_def insert_row_def
      row_of_def terminal_statuses_def TASK_STATUS_SUCCESS_def TASK_STATUS_FAILURE_def
      TASK_STATUS_REVOKED_def TASK_STATUS_PENDING_def TASK_STATUS_STARTED_def
      TASK_STATUS_PROGRESS_def get_active_tasks_endpoint_def db_select_def active_statuses_def
      active_task_details_def truthy_text_def unparsed_details_def active_running_time_def
      get_task_info_from_db_def running_time_of_def)

text \<open>
  The last-task view at a start time of 0, which \<^verbatim>\<open>if start_time:\<close> takes for unset (a
  clock reading of \<^verbatim>\<open>time.time()\<close> is not 0).
\<close>

theorem last_task_treats_zero_start_time_as_unset:
  "get_last_overall_task_status_endpoint 10
      (healthy [row_of ''t1'' None ''main_analysis'' TASK_STATUS_SUCCESS None (Some 0) (Some 5)])
     = Inr (Some \<lparr>item_row = row_of ''t1'' None ''main_analysis'' TASK_STATUS_SUCCESS None (Some 0) (Some 5),
                   item_details = NoDetails, item_running_time_seconds = 0\<rparr>)
   \<and> get_task_info_from_db 10 ''t1''
      (healthy [row_of ''t1'' None ''main_analysis'' TASK_STATUS_SUCCESS None (Some 0) (Some 5)])
     = Inr (Some (row_of ''t1'' None ''main_analysis'' TASK_STATUS_SUCCESS None (Some 0) (Some 5), 5))"
  by (simp add: get_last_overall_task_status_endpoint_def get_task_info_from_db_def db_select_def
      get_db_def healthy_def find_row_def row_of_def last_task_details_def truthy_text_def
      unparsed_details_def last_task_running_time_def running_time_of_def)

text \<open>What holds of the two computations in general.\<close>

lemma running_time_of_nonneg: "0 \<le> running_time_of now r"
  by (simp add: running_time_of_def Let_def split: option.splits)

lemma running_time_of_unset: "start_time r = None \<Longrightarrow> running_time_of now r = 0"
  by (simp add: running_time_of_def)

lemma running_time_of_set:
  "start_time r = Some st \<Longrightarrow>
   running_time_of now r = max 0 ((case end_time r of Some e \<Rightarrow> e | None \<Rightarrow> now) - st)"
  by (simp add: running_time_of_def Let_def)

lemma last_task_running_time_nonneg: "0 \<le> last_task_running_time now r"
  by (simp add: last_task_running_time_def Let_def split: option.splits)

lemma last_task_running_time_unset: "start_time r = None \<Longrightarrow> last_task_running_time now r = 0"
  by (simp add: last_task_running_time_def)

lemma last_task_running_time_set:
  "start_time r = Some st \<Longrightarrow> st \<noteq> 0 \<Longrightarrow>
   last_task_running_time now r = running_time_of now r"
  by (simp add: last_task_running_time_def running_time_of_def Let_def)


section \<open>The archival sweep\<close>


lemma original_summary_archivable:
  "archivable_details d \<Longrightarrow> original_summary py_str s d = Inr (summary_text py_str s d)"
  by (auto simp add: archivable_details_def original_summary_def summary_text_def Let_def
      json_loads_def truthy_text_def split: option.splits stored_text.splits json.splits)

lemma archive_each_ok:
  assumes "\<forall>t\<in>set ts. archivable_details (snd (snd t))"
  shows "archive_each py_str now ts k rows =
           (Inr (k + length ts), map (\<lambda>r. fold (archive_one py_str now) ts r) rows)"
  using assms
proof (induction ts arbitrary: k rows)
  case Nil
  then show ?case by simp
next
  case (Cons t ts)
  obtain tid s d where t: "t = (tid, s, d)" by (cases t) auto
  have d: "original_summary py_str s d = Inr (summary_text py_str s d)"
    using Cons.prems t by (simp add: original_summary_archivable)
  have upd: "archive_update now tid s (json_dumps (archived_details_of s (summary_text py_str s d))) rows
      = map (archive_one py_str now t) rows"
    by (simp add: archive_update_def archive_one_def t)
  show ?case
    using Cons.IH[of "k + 1" "map (archive_one py_str now t) rows"] Cons.prems
    by (simp add: t d upd[unfolded t] comp_def)
qed

lemma archive_one_task_id: "task_id (archive_one py_str now t r) = task_id r"
  by (cases t) (simp add: archive_one_def)

lemma fold_archive_one_other:
  "task_id r \<notin> fst ` set ts \<Longrightarrow> fold (archive_one py_str now) ts r = r"
  by (induction ts arbitrary: r) (auto simp add: archive_one_def)

lemma fold_archive_one_find:
  assumes "distinct (map fst ts)"
  shows "fold (archive_one py_str now) ts r =
     (case find (\<lambda>t. fst t = task_id r) ts of None \<Rightarrow> r | Some t \<Rightarrow> archive_one py_str now t r)"
  using assms
proof (induction ts arbitrary: r)
  case Nil
  then show ?case by simp
next
  case (Cons t ts)
  show ?case
  proof (cases "fst t = task_id r")
    case True
    have "task_id (archive_one py_str now t r) \<notin> fst ` set ts"
      using Cons.prems True by (simp add: archive_one_task_id)
    then have "fold (archive_one py_str now) ts (archive_one py_str now t r) = archive_one py_str now t r"
      by (rule fold_archive_one_other)
    with True show ?thesis by simp
  next
    case False
    then have "archive_one py_str now t r = r"
      by (cases t) (auto simp add: archive_one_def)
    with False Cons show ?thesis by simp
  qed
qed

lemma select_tasks_to_archive_alt: "select_tasks_to_archive rows = List.map_filter selected rows"
  by (simp add: select_tasks_to_archive_def selected_def[abs_def])

lemma selected_Some: "selected r = Some t \<Longrightarrow> fst t = task_id r \<and> eligible r \<and> status r = Some (fst (snd t)) \<and> snd (snd t) = details r"
  by (auto simp add: selected_def eligible_def split: option.splits if_splits)

lemma selected_None: "selected r = None \<Longrightarrow> \<not> eligible r"
  by (auto simp add: selected_def eligible_def split: option.splits if_splits)

lemma fst_set_map_filter_selected: "fst ` set (List.map_filter selected rows) \<subseteq> task_id ` set rows"
  by (induction rows) (auto simp add: map_filter_simps dest: selected_Some split: option.splits)

lemma distinct_selected:
  "distinct (map task_id rows) \<Longrightarrow> distinct (map fst (List.map_filter selected rows))"
proof (induction rows)
  case Nil
  then show ?case by (simp add: map_filter_simps)
next
  case (Cons a rows)
  show ?case
  proof (cases "selected a")
    case None
    with Cons show ?thesis by (simp add: map_filter_simps)
  next
    case (Some t)
    have "fst t = task_id a" using selected_Some[OF Some] by simp
    moreover have "task_id a \<notin> fst ` set (List.map_filter selected rows)"
      using fst_set_map_filter_selected[of rows] Cons.prems by auto
    ultimately show ?thesis using Cons Some by (simp add: map_filter_simps)
  qed
qed

lemma find_selected:
  assumes "distinct (map task_id rows)" "r \<in> set rows"
  shows "find (\<lambda>t. fst t = task_id r) (List.map_filter selected rows) = selected r"
  using assms
proof (induction rows)
  case Nil
  then show ?case by simp
next
  case (Cons a rows)
  show ?case
  proof (cases "a = r")
    case True
    show ?thesis
    proof (cases "selected r")
      case None
      have "task_id r \<notin> fst ` set (List.map_filter selected rows)"
        using fst_set_map_filter_selected[of rows] Cons.prems True by auto
      then have "find (\<lambda>t. fst t = task_id r) (List.map_filter selected rows) = None"
        by (force simp add: find_None_iff)
      with None True show ?thesis by (simp add: map_filter_simps)
    next
      case (Some t)
      with True selected_Some[OF Some] show ?thesis by (simp add: map_filter_simps)
    qed
  next
    case False
    with Cons.prems have r: "r \<in> set rows" and ne: "task_id a \<noteq> task_id r" by auto
    have ih: "find (\<lambda>t. fst t = task_id r) (List.map_filter selected rows) = selected r"
      using Cons.IH Cons.prems r by simp
    show ?thesis
    proof (cases "selected a")
      case None
      with ih show ?thesis by (simp add: map_filter_simps)
    next
      case (Some t)
      with selected_Some[OF Some] ne ih show ?thesis by (simp add: map_filter_simps)
    qed
  qed
qed

lemma archive_one_selected:
  "selected r = Some t \<Longrightarrow> archive_one py_str now t r = archived_row py_str now r"
  by (cases t) (auto simp add: selected_def archive_one_def archived_row_def split: option.splits if_splits)

lemma eligible_status: "eligible r \<Longrightarrow> \<exists>s. status r = Some s"
  by (auto simp add: eligible_def)

lemma sweep_rows:
  assumes "distinct (map task_id rows)"
  shows "map (\<lambda>r. fold (archive_one py_str now) (select_tasks_to_archive rows) r) rows
       = map (\<lambda>r. if eligible r then archived_row py_str now r else r) rows"
proof (rule map_cong[OF refl])
  fix r assume r: "r \<in> set rows"
  have d: "distinct (map fst (select_tasks_to_archive rows))"
    using assms by (simp add: select_tasks_to_archive_alt distinct_selected)
  have f: "find (\<lambda>t. fst t = task_id r) (select_tasks_to_archive rows) = selected r"
    using find_selected[OF assms r] by (simp add: select_tasks_to_archive_alt)
  show "fold (archive_one py_str now) (select_tasks_to_archive rows) r
      = (if eligible r then archived_row py_str now r else r)"
  proof (cases "selected r")
    case None
    with f selected_None[OF None] show ?thesis
      by (simp add: fold_archive_one_find[OF d])
  next
    case (Some t)
    with f selected_Some[OF Some] archive_one_selected[OF Some] show ?thesis
      by (simp add: fold_archive_one_find[OF d])
  qed
qed

lemma length_select: "length (select_tasks_to_archive rows) = length (filter eligible rows)"
proof (induction rows)
  case Nil
  then show ?case by (simp add: select_tasks_to_archive_alt map_filter_simps)
next
  case (Cons a rows)
  then show ?case
    by (cases "selected a")
      (auto simp add: select_tasks_to_archive_alt map_filter_simps dest: selected_Some selected_None)
qed

lemma select_archivable:
  assumes "\<forall>r\<in>set rows. eligible r \<longrightarrow> archivable_details (details r)"
  shows "\<forall>t\<in>set (select_tasks_to_archive rows). archivable_details (snd (snd t))"
proof
  fix t assume "t \<in> set (select_tasks_to_archive rows)"
  then obtain r where r: "r \<in> set rows" "selected r = Some t"
    by (auto simp add: select_tasks_to_archive_alt map_filter_def)
  with selected_Some[OF r(2)] assms show "archivable_details (snd (snd t))" by auto
qed

lemma archived_row_not_eligible: "eligible r \<Longrightarrow> \<not> eligible (archived_row py_str now r)"
  by (auto simp add: eligible_def archived_row_def cleanup_statuses_def TASK_STATUS_REVOKED_def
      TASK_STATUS_PENDING_def TASK_STATUS_STARTED_def TASK_STATUS_PROGRESS_def TASK_STATUS_SUCCESS_def)

lemma archived_row_fields:
  "eligible r \<Longrightarrow> status (archived_row py_str now r) = Some TASK_STATUS_REVOKED
     \<and> progress (archived_row py_str now r) = 100
     \<and> task_id (archived_row py_str now r) = task_id r"
  by (auto simp add: eligible_def archived_row_def)

lemma select_none: "\<forall>r\<in>set rows. \<not> eligible r \<Longrightarrow> select_tasks_to_archive rows = []"
  using length_select[of rows] by (simp add: filter_empty_conv[THEN iffD2])



lemma swept_not_eligible:
  "filter eligible (map (\<lambda>r. if eligible r then archived_row py_str now r else r) rows) = []"
  by (auto simp add: filter_empty_conv archived_row_not_eligible)

lemma clean_up_nothing:
  assumes "fault c = NoFault" "filter eligible (working c) = []"
  shows "clean_up_previous_main_tasks py_str now c = Inr (NothingToCleanUp, c)"
proof -
  have "\<forall>r\<in>set (working c). \<not> eligible r"
    using assms(2) by (simp add: filter_empty_conv)
  then have "select_tasks_to_archive (working c) = []"
    by (rule select_none)
  then show ?thesis
    using assms(1) by (simp add: clean_up_previous_main_tasks_def get_db_def sweep_def)
qed

lemma clean_up_some:
  assumes "fault c = NoFault" "distinct (map task_id (working c))"
    and "\<forall>r\<in>set (working c). eligible r \<longrightarrow> archivable_details (details r)"
    and "filter eligible (working c) \<noteq> []"
  shows "clean_up_previous_main_tasks py_str now c =
     Inr (Archived (length (filter eligible (working c))),
          c\<lparr>working := map (\<lambda>r. if eligible r then archived_row py_str now r else r) (working c),
            committed := map (\<lambda>r. if eligible r then archived_row py_str now r else r) (working c)\<rparr>)"
proof -
  have e: "archive_each py_str now (select_tasks_to_archive (working c)) 0 (working c)
      = (Inr (length (filter eligible (working c))),
         map (\<lambda>r. if eligible r then archived_row py_str now r else r) (working c))"
    using archive_each_ok[OF select_archivable[OF assms(3)], of py_str now 0 "working c"]
    by (simp add: sweep_rows[OF assms(2)] length_select)
  have pos: "0 < length (filter eligible (working c))"
    using assms(4) by simp
  show ?thesis
    using assms(1) pos
    by (simp add: clean_up_previous_main_tasks_def get_db_def sweep_def e Let_def db_commit_def)
qed

text \<open>
  The sweep where it can read the details. On a store that answers, whose task ids are
  unique and whose eligible root tasks carry details the loop can read (absent,
  unparseable, or a JSON object), the sweep rewrites exactly the eligible rows (root tasks
  in status \<^verbatim>\<open>SUCCESS\<close>, \<^verbatim>\<open>PENDING\<close>, \<^verbatim>\<open>STARTED\<close> or \<^verbatim>\<open>PROGRESS\<close>) to status
  \<^verbatim>\<open>REVOKED\<close> with progress 100, reports their number and commits; after it no row is
  eligible, and a second run archives nothing and leaves the store as it is.
\<close>

theorem archival_sweep_idempotent:
  assumes "fault c = NoFault"
    and "distinct (map task_id (working c))"
    and "\<forall>r\<in>set (working c). eligible r \<longrightarrow> archivable_details (details r)"
  shows "\<exists>c1.
       clean_up_previous_main_tasks py_str now c =
         Inr (if filter eligible (working c) = [] then NothingToCleanUp
              else Archived (length (filter eligible (working c))), c1)
     \<and> working c1 = map (\<lambda>r. if eligible r then archived_row py_str now r else r) (working c)
     \<and> (\<forall>r\<in>set (working c). eligible r \<longrightarrow>
            status (archived_row py_str now r) = Some TASK_STATUS_REVOKED
          \<and> progress (archived_row py_str now r) = 100)
     \<and> (filter eligible (working c) \<noteq> [] \<longrightarrow> committed c1 = working c1)
     \<and> filter eligible (working c1) = []
     \<and> clean_up_previous_main_tasks py_str now' c1 = Inr (NothingToCleanUp, c1)"
proof (cases "filter eligible (working c) = []")
  case True
  have same: "map (\<lambda>r. if eligible r then archived_row py_str now r else r) (working c) = working c"
    using True by (simp add: filter_empty_conv map_idI)
  show ?thesis
    apply (rule exI[of _ c])
    using True same clean_up_nothing[OF assms(1) True] by (simp add: archived_row_fields)
next
  case False
  let ?rows = "map (\<lambda>r. if eligible r then archived_row py_str now r else r) (working c)"
  let ?c1 = "c\<lparr>working := ?rows, committed := ?rows\<rparr>"
  have run1: "clean_up_previous_main_tasks py_str now c
      = Inr (Archived (length (filter eligible (working c))), ?c1)"
    using clean_up_some[OF assms False] .
  have none: "filter eligible (working ?c1) = []"
    by (simp add: swept_not_eligible)
  have run2: "clean_up_previous_main_tasks py_str now' ?c1 = Inr (NothingToCleanUp, ?c1)"
    by (rule clean_up_nothing) (simp_all add: assms(1) swept_not_eligible)
  show ?thesis
    apply (rule exI[of _ ?c1])
    using False run1 run2 none by (simp add: archived_row_fields)
qed

text \<open>
  An instance: of four rows, the successful root and the pending root are archived, the
  started child and the failed root are left; the second run finds nothing.
\<close>

theorem archival_sweep_idempotent_witness:
  "fault (healthy
      [row_of ''a'' None ''main_analysis'' TASK_STATUS_SUCCESS
         (Some (Valid (JObj [(''status_message'', JStr ''done'')]))) (Some 1) (Some 2),
       row_of ''b'' (Some ''a'') ''album_analysis'' TASK_STATUS_STARTED None (Some 1) None,
       row_of ''c'' None ''main_clustering'' TASK_STATUS_PENDING None None None,
       row_of ''d'' None ''main_analysis'' TASK_STATUS_FAILURE None (Some 1) (Some 2)]) = NoFault
   \<and> (\<exists>c1. clean_up_previous_main_tasks (\<lambda>j. []) 10
        (healthy
          [row_of ''a'' None ''main_analysis'' TASK_STATUS_SUCCESS
             (Some (Valid (JObj [(''status_message'', JStr ''done'')]))) (Some 1) (Some 2),
           row_of ''b'' (Some ''a'') ''album_analysis'' TASK_STATUS_STARTED None (Some 1) None,
           row_of ''c'' None ''main_clustering'' TASK_STATUS_PENDING None None None,
           row_of ''d'' None ''main_analysis'' TASK_STATUS_FAILURE None (Some 1) (Some 2)])
        = Inr (Archived 2, c1)
      \<and> map status (working c1)
          = [Some ''REVOKED'', Some ''STARTED'', Some ''REVOKED'', Some ''FAILURE'']
      \<and> clean_up_previous_main_tasks (\<lambda>j. []) 11 c1 = Inr (NothingToCleanUp, c1))"
proof -
  let ?rows = "[row_of ''a'' None ''main_analysis'' TASK_STATUS_SUCCESS
         (Some (Valid (JObj [(''status_message'', JStr ''done'')]))) (Some 1) (Some 2),
       row_of ''b'' (Some ''a'') ''album_analysis'' TASK_STATUS_STARTED None (Some 1) None,
       row_of ''c'' None ''main_clustering'' TASK_STATUS_PENDING None None None,
       row_of ''d'' None ''main_analysis'' TASK_STATUS_FAILURE None (Some 1) (Some 2)]"
  note st = TASK_STATUS_REVOKED_def TASK_STATUS_PENDING_def TASK_STATUS_STARTED_def
      TASK_STATUS_PROGRESS_def TASK_STATUS_SUCCESS_def TASK_STATUS_FAILURE_def
  have a: "fault (healthy ?rows) = NoFault"
    by (simp add: healthy_def)
  have b: "distinct (map task_id (working (healthy ?rows)))"
    by (simp add: healthy_def row_of_def)
  have el: "map eligible ?rows = [True, False, True, False]"
    by (simp add: eligible_def row_of_def cleanup_statuses_def st)
  have c: "\<forall>r\<in>set (working (healthy ?rows)). eligible r \<longrightarrow> archivable_details (details r)"
    by (simp add: healthy_def row_of_def archivable_details_def)
  have w: "working (healthy ?rows) = ?rows"
    by (simp add: healthy_def)
  have f: "filter eligible ?rows = [?rows ! 0, ?rows ! 2]"
    using el by simp
  have m: "map status (map (\<lambda>r. if eligible r then archived_row (\<lambda>j. []) 10 r else r) ?rows)
      = [Some ''REVOKED'', Some ''STARTED'', Some ''REVOKED'', Some ''FAILURE'']"
    using el by (simp add: archived_row_def row_of_def st)
  from archival_sweep_idempotent[OF a b c, of "\<lambda>j. []" 10 11]
  obtain c1 where c1:
    "clean_up_previous_main_tasks (\<lambda>j. []) 10 (healthy ?rows) =
         Inr (if filter eligible (working (healthy ?rows)) = [] then NothingToCleanUp
              else Archived (length (filter eligible (working (healthy ?rows)))), c1)"
    "working c1 = map (\<lambda>r. if eligible r then archived_row (\<lambda>j. []) 10 r else r) (working (healthy ?rows))"
    "clean_up_previous_main_tasks (\<lambda>j. []) 11 c1 = Inr (NothingToCleanUp, c1)"
    by blast
  have r1: "clean_up_previous_main_tasks (\<lambda>j. []) 10 (healthy ?rows) = Inr (Archived 2, c1)"
    using c1(1) unfolding w f by simp
  have r2: "map status (working c1) = [Some ''REVOKED'', Some ''STARTED'', Some ''REVOKED'', Some ''FAILURE'']"
    unfolding c1(2) w by (rule m)
  show ?thesis
    by (intro conjI exI[of _ c1] a r1 r2 c1(3))
qed

text \<open>
  Claim C4 at a successful root task whose details \<^verbatim>\<open>save_task_status\<close> stored from a
  list: the row is eligible, the loop raises \<^verbatim>\<open>AttributeError\<close> on it, the batch is rolled
  back and the store is left as it was, so every later run finds the same eligible row and
  fails in the same way.
\<close>

theorem sweep_fails_on_details_that_are_not_an_object:
  "save_task_status 5 ''a'' ''main_analysis'' TASK_STATUS_SUCCESS None None 100
      (Some (JList [JInt 1])) (healthy [])
     = Inr (healthy [(row_of ''a'' None ''main_analysis'' TASK_STATUS_SUCCESS
                        (Some (Valid (JList [JInt 1]))) (Some 5) (Some 5))
                      \<lparr>progress := 100, timestamp := 5\<rparr>])
   \<and> eligible ((row_of ''a'' None ''main_analysis'' TASK_STATUS_SUCCESS
                        (Some (Valid (JList [JInt 1]))) (Some 5) (Some 5))
                      \<lparr>progress := 100, timestamp := 5\<rparr>)
   \<and> clean_up_previous_main_tasks py_str 10
        (healthy [(row_of ''a'' None ''main_analysis'' TASK_STATUS_SUCCESS
                        (Some (Valid (JList [JInt 1]))) (Some 5) (Some 5))
                      \<lparr>progress := 100, timestamp := 5\<rparr>])
     = Inr (SweepFailed AttributeError,
            healthy [(row_of ''a'' None ''main_analysis'' TASK_STATUS_SUCCESS
                        (Some (Valid (JList [JInt 1]))) (Some 5) (Some 5))
                      \<lparr>progress := 100, timestamp := 5\<rparr>])"
  by (simp add: save_task_status_def Let_def get_db_def db_commit_def db_rollback_def healthy_def
      prepare_details_def json_dumps_def upsert_task_status_def find_row_def insert_row_def
      row_of_def terminal_statuses_def TASK_STATUS_SUCCESS_def TASK_STATUS_FAILURE_def
      TASK_STATUS_REVOKED_def TASK_STATUS_PENDING_def TASK_STATUS_STARTED_def
      TASK_STATUS_PROGRESS_def eligible_def cleanup_statuses_def
      clean_up_previous_main_tasks_def sweep_def select_tasks_to_archive_def map_filter_simps
      original_summary_def truthy_text_def json_loads_def)

section \<open>Cancellation of a task tree\<close>


lemma find_row_member:
  "distinct (map task_id rows) \<Longrightarrow> r \<in> set rows \<Longrightarrow> find_row (task_id r) rows = Some r"
  by (induction rows) (auto simp add: find_row_def)

lemma find_row_in_set: "find_row k rows = Some r \<Longrightarrow> r \<in> set rows"
  by (auto simp add: find_row_def find_Some_iff)

lemma revoked_row_fields:
  "task_id (revoked_row now reason r) = task_id r"
  "task_type (revoked_row now reason r) = task_type r"
  "status (revoked_row now reason r) = Some TASK_STATUS_REVOKED"
  "progress (revoked_row now reason r) = 100"
  "parent_task_id (revoked_row now reason r) = None"
  "details (revoked_row now reason r) = Some (Valid (JObj [(''message'', JStr reason)]))"
  by (simp_all add: revoked_row_def upsert_row_def)

lemma revoked_row_terminal: "\<not> non_terminal (revoked_row now reason r)"
  by (simp add: non_terminal_def revoked_row_fields terminal_statuses_def)

lemma find_row_revoke_in:
  "find_row k (revoke_in now K rf rows) =
     map_option (\<lambda>r. if k \<in> K then revoked_row now (rf k) r else r) (find_row k rows)"
proof -
  have "find_row k (revoke_in now K rf rows) =
      map_option (\<lambda>r. if task_id r \<in> K then revoked_row now (rf (task_id r)) r else r) (find_row k rows)"
    unfolding revoke_in_def by (rule find_row_map) (simp add: revoked_row_fields)
  then show ?thesis
    by (cases "find_row k rows") (auto dest: find_row_task_id)
qed

lemma map_task_id_revoke_in: "map task_id (revoke_in now K rf rows) = map task_id rows"
  by (simp add: revoke_in_def revoked_row_fields comp_def)

lemma revoke_in_compose:
  assumes "K1 \<inter> K2 = {}"
  shows "revoke_in now K2 rf2 (revoke_in now K1 rf1 rows)
       = revoke_in now (K1 \<union> K2) (\<lambda>i. if i \<in> K1 then rf1 i else rf2 i) rows"
  using assms by (auto simp add: revoke_in_def revoked_row_fields)

lemma revoke_in_cong:
  assumes "\<And>i. i \<in> K \<Longrightarrow> rf i = rf' i"
  shows "revoke_in now K rf rows = revoke_in now K rf' rows"
  using assms by (simp add: revoke_in_def)

lemma children_of_revoke_in:
  "children_of p (revoke_in now K rf rows)
     = filter (\<lambda>r. parent_task_id r = Some p \<and> task_id r \<notin> K) rows"
  by (induction rows) (auto simp add: children_of_def revoke_in_def revoked_row_fields)

lemma prepare_details_message:
  "prepare_details TASK_STATUS_REVOKED (Some (JObj [(''message'', JStr reason)]))
     = Some (Valid (JObj [(''message'', JStr reason)]))"
  by (simp add: prepare_details_def json_dumps_def cap_log_def is_list_def dict_get_def
      TASK_STATUS_REVOKED_def TASK_STATUS_SUCCESS_def)

lemma upsert_existing_is_revoke_in:
  assumes "find_row k rows = Some r"
  shows "upsert_task_status now k None ty None TASK_STATUS_REVOKED 100
           (Some (Valid (JObj [(''message'', JStr reason)]))) rows
       = revoke_in now {k} (\<lambda>i. reason) rows"
  using assms by (simp add: upsert_task_status_def revoke_in_def revoked_row_def)

lemma save_revoked_existing:
  assumes "fault c = NoFault" "find_row k (working c) = Some r"
  shows "save_task_status now k ty TASK_STATUS_REVOKED None None 100
           (Some (JObj [(''message'', JStr reason)])) c
       = Inr (c\<lparr>working := revoke_in now {k} (\<lambda>i. reason) (working c),
                committed := revoke_in now {k} (\<lambda>i. reason) (working c)\<rparr>)"
  using assms
  by (simp add: save_task_status_healthy prepare_details_message upsert_existing_is_revoke_in)



lemma ids_nonempty: "ids t \<noteq> []"
  by (cases t) simp

lemma root_in_ids: "root_id t \<in> set (ids t)"
  by (cases t) simp

lemma length_ids_member: "t \<in> set ts \<Longrightarrow> length (ids t) \<le> length (concat (map ids ts))"
  by (induction ts) auto


subsection \<open>Frames: what revoking other tasks leaves of a tree\<close>

lemma interrupt_all_append:
  "interrupt_all (xs @ ys) e =
     (fst (interrupt_all xs e) + fst (interrupt_all ys (snd (interrupt_all xs e))),
      snd (interrupt_all ys (snd (interrupt_all xs e))))"
  by (induction xs arbitrary: e) (auto split: prod.splits)

lemma walked_tree_frame:
  assumes "walked_tree rows t" "set (ids t) \<inter> K = {}"
  shows "walked_tree (revoke_in now K rf rows) t"
  using assms
proof (induction t)
  case (Node a ts)
  have root: "find_row a (revoke_in now K rf rows) \<noteq> None"
    using Node.prems(1) by (simp add: find_row_revoke_in)
  have sub: "\<forall>t\<in>set ts. walked_tree (revoke_in now K rf rows) t"
  proof
    fix t assume t: "t \<in> set ts"
    have "set (ids t) \<inter> K = {}" using Node.prems(2) t by auto
    with Node.IH[OF t] Node.prems(1) t show "walked_tree (revoke_in now K rf rows) t" by simp
  qed
  have ch: "map task_id (filter non_terminal (children_of a rows)) = map root_id ts"
    using Node.prems(1) by simp
  have notK: "task_id r \<notin> K" if "r \<in> set rows" "parent_task_id r = Some a" "non_terminal r" for r
  proof -
    have "task_id r \<in> set (map task_id (filter non_terminal (children_of a rows)))"
      using that by (auto simp add: children_of_def)
    then have "task_id r \<in> set (map root_id ts)" using ch by simp
    then obtain t where "t \<in> set ts" "root_id t = task_id r" by auto
    then have "task_id r \<in> set (ids (Node a ts))"
      using root_in_ids[of t] by auto
    with Node.prems(2) show ?thesis by auto
  qed
  have "filter non_terminal (children_of a (revoke_in now K rf rows))
      = filter non_terminal (filter (\<lambda>r. parent_task_id r = Some a \<and> task_id r \<notin> K) rows)"
    by (simp only: children_of_revoke_in)
  also have "\<dots> = filter non_terminal (children_of a rows)"
    unfolding children_of_def filter_filter
    by (rule filter_cong[OF refl]) (auto dest: notK)
  finally show ?case
    using ch root sub by simp
qed

lemma walked_tree_live:
  assumes "distinct (map task_id rows)" "walked_tree rows t" "live_task rows (root_id t)"
  shows "\<forall>k\<in>set (ids t). live_task rows k"
  using assms(2,3)
proof (induction t)
  case (Node a ts)
  have "\<forall>k\<in>set (ids t). live_task rows k" if t: "t \<in> set ts" for t
  proof -
    have "root_id t \<in> set (map task_id (filter non_terminal (children_of a rows)))"
      using Node.prems(1) t by auto
    then obtain r where r: "r \<in> set rows" "non_terminal r" "task_id r = root_id t"
      by (auto simp add: children_of_def)
    have "find_row (root_id t) rows = Some r"
      using find_row_member[OF assms(1) r(1)] r(3) by simp
    then have "live_task rows (root_id t)"
      using r(2) by (simp add: live_task_def)
    with Node.IH[OF t] Node.prems(1) t show ?thesis by simp
  qed
  with Node.prems(2) show ?case by auto
qed

lemma typed_task_revoke_in: "typed_task (revoke_in now K rf rows) k = typed_task rows k"
  by (cases "find_row k rows") (simp_all add: typed_task_def find_row_revoke_in revoked_row_fields)

lemma live_task_revoke_in_other:
  "k \<notin> K \<Longrightarrow> live_task (revoke_in now K rf rows) k = live_task rows k"
  by (cases "find_row k rows") (simp_all add: live_task_def find_row_revoke_in)



subsection \<open>The loop over the children and the routine\<close>

lemma get_child_tasks_from_db_healthy:
  "fault c = NoFault \<Longrightarrow> get_child_tasks_from_db k c = Inr (children_of k (working c))"
  by (simp add: get_child_tasks_from_db_def db_select_def get_db_def children_of_def)

lemma reason_for_parent:
  "reason_for k parent_revocation_reason = (\<lambda>i. parent_revocation_reason)"
  by (simp add: reason_for_def fun_eq_iff)

lemma revoke_in_empty: "revoke_in now {} rf rows = rows"
  by (simp add: revoke_in_def)

lemma conn_same:
  "committed c = working c \<Longrightarrow> c\<lparr>working := working c, committed := working c\<rparr> = c"
  by (cases c) simp

lemma walk_result_nil:
  "committed (db w) = working (db w) \<Longrightarrow> walk_result now [] rf w = (0, w)"
  by (simp add: walk_result_def revoke_in_empty conn_same)

lemma walk_result_append:
  assumes "set xs \<inter> set ys = {}"
  shows "walk_result now (xs @ ys) rf w =
     (fst (walk_result now xs rf w) + fst (walk_result now ys rf (snd (walk_result now xs rf w))),
      snd (walk_result now ys rf (snd (walk_result now xs rf w))))"
proof -
  have "revoke_in now (set ys) rf (revoke_in now (set xs) rf (working (db w)))
      = revoke_in now (set xs \<union> set ys) rf (working (db w))"
    using revoke_in_compose[OF assms, of now rf rf "working (db w)"] by simp
  then show ?thesis
    by (simp add: walk_result_def interrupt_all_append)
qed

lemma walk_result_db:
  "fault (db (snd (walk_result now ks rf w))) = fault (db w)"
  "committed (db (snd (walk_result now ks rf w))) = working (db (snd (walk_result now ks rf w)))"
  "working (db (snd (walk_result now ks rf w))) = revoke_in now (set ks) rf (working (db w))"
  by (simp_all add: walk_result_def)

lemma cancel_children_walk:
  fixes T :: "task_tree set"
  assumes IH: "\<And>t w. t \<in> T \<Longrightarrow> fault (db w) = NoFault
      \<Longrightarrow> distinct (map task_id (working (db w)))
      \<Longrightarrow> walked_tree (working (db w)) t \<Longrightarrow> distinct (ids t)
      \<Longrightarrow> (\<forall>k\<in>set (ids t). typed_task (working (db w)) k)
      \<Longrightarrow> length (ids t) \<le> d
      \<Longrightarrow> cancel_job_and_children_recursive d now (root_id t) None parent_revocation_reason w
            = Some (Inr (walk_result now (ids t) (\<lambda>i. parent_revocation_reason) w))"
  shows "set ts \<subseteq> T \<Longrightarrow> fault (db w) = NoFault \<Longrightarrow> committed (db w) = working (db w)
     \<Longrightarrow> distinct (map task_id (working (db w)))
     \<Longrightarrow> map root_id ts = filter (live_task (working (db w))) (map task_id cs)
     \<Longrightarrow> distinct (map task_id cs)
     \<Longrightarrow> (\<forall>t\<in>set ts. walked_tree (working (db w)) t
              \<and> (\<forall>k\<in>set (ids t). typed_task (working (db w)) k) \<and> length (ids t) \<le> d)
     \<Longrightarrow> distinct (concat (map ids ts))
     \<Longrightarrow> cancel_children d now cs cnt w =
          Some (Inr (cnt + fst (walk_result now (concat (map ids ts)) (\<lambda>i. parent_revocation_reason) w),
                     snd (walk_result now (concat (map ids ts)) (\<lambda>i. parent_revocation_reason) w)))"
proof (induction cs arbitrary: ts w cnt)
  case Nil
  then have "ts = []" by simp
  with Nil show ?case by (simp add: walk_result_nil)
next
  case (Cons c0 cs)
  let ?R = "working (db w)"
  let ?k0 = "task_id c0"
  let ?pr = "\<lambda>i::string. parent_revocation_reason"
  have info: "get_task_info_from_db now ?k0 (db w)
      = Inr (map_option (\<lambda>r. (r, running_time_of now r)) (find_row ?k0 ?R))"
    using Cons.prems(2) by (rule get_task_info_from_db_healthy)
  show ?case
  proof (cases "live_task ?R ?k0")
    case False
    have roots: "map root_id ts = filter (live_task ?R) (map task_id cs)"
      using Cons.prems(5) False by simp
    have rest: "cancel_children d now cs cnt w =
          Some (Inr (cnt + fst (walk_result now (concat (map ids ts)) ?pr w),
                     snd (walk_result now (concat (map ids ts)) ?pr w)))"
      using Cons.IH[OF Cons.prems(1,2,3,4) roots _ Cons.prems(7,8)] Cons.prems(6) by simp
    have "cancel_children d now (c0 # cs) cnt w = cancel_children d now cs cnt w"
      using False info
      by (cases "find_row ?k0 ?R") (simp_all add: live_task_def non_terminal_def)
    with rest show ?thesis by simp
  next
    case True
    then obtain r where r: "find_row ?k0 ?R = Some r" "status r \<notin> Some ` set terminal_statuses"
      by (auto simp add: live_task_def non_terminal_def split: option.splits)
    have "map root_id ts = ?k0 # filter (live_task ?R) (map task_id cs)"
      using Cons.prems(5) True by simp
    then obtain t1 ts' where ts: "ts = t1 # ts'" "root_id t1 = ?k0"
        "map root_id ts' = filter (live_task ?R) (map task_id cs)"
      by (cases ts) auto
    have t1T: "t1 \<in> T" and ts'T: "set ts' \<subseteq> T"
      using Cons.prems(1) ts(1) by auto
    have t1: "walked_tree ?R t1" "\<forall>k\<in>set (ids t1). typed_task ?R k" "length (ids t1) \<le> d"
      using Cons.prems(7) ts(1) by auto
    have d1: "distinct (ids t1)" and d': "distinct (concat (map ids ts'))"
      and disj: "set (ids t1) \<inter> set (concat (map ids ts')) = {}"
      using Cons.prems(8) ts(1) by auto
    let ?w1 = "snd (walk_result now (ids t1) ?pr w)"
    let ?n1 = "fst (walk_result now (ids t1) ?pr w)"
    let ?R1 = "revoke_in now (set (ids t1)) ?pr ?R"
    have call: "cancel_job_and_children_recursive d now ?k0 None parent_revocation_reason w
        = Some (Inr (?n1, ?w1))"
      using IH[OF t1T Cons.prems(2,4) t1(1) d1 t1(2,3)] ts(2) by simp
    have alllive: "\<forall>k\<in>set (ids t1). live_task ?R k"
      using walked_tree_live[OF Cons.prems(4) t1(1)] True ts(2) by simp
    have notin: "k' \<notin> set (ids t1)" if k': "k' \<in> set (map task_id cs)" for k'
    proof
      assume in1: "k' \<in> set (ids t1)"
      then have "live_task ?R k'" using alllive by simp
      with k' have "k' \<in> set (filter (live_task ?R) (map task_id cs))" by simp
      then have "k' \<in> set (map root_id ts')" using ts(3) by simp
      then obtain t' where t': "t' \<in> set ts'" "root_id t' = k'" by auto
      then have "k' \<in> set (ids t')" using root_in_ids[of t'] by simp
      with t'(1) have "k' \<in> set (concat (map ids ts'))" by auto
      with in1 disj show False by auto
    qed
    have w1R: "working (db ?w1) = ?R1"
      by (simp add: walk_result_db)
    have roots1: "map root_id ts' = filter (live_task (working (db ?w1))) (map task_id cs)"
      unfolding w1R ts(3)
      by (rule filter_cong[OF refl]) (simp add: live_task_revoke_in_other notin)
    have trees1: "\<forall>t\<in>set ts'. walked_tree (working (db ?w1)) t
              \<and> (\<forall>k\<in>set (ids t). typed_task (working (db ?w1)) k) \<and> length (ids t) \<le> d"
    proof
      fix t assume t: "t \<in> set ts'"
      have "set (ids t) \<inter> set (ids t1) = {}" using disj t by auto
      then have "walked_tree ?R1 t"
        using walked_tree_frame Cons.prems(7) ts(1) t by simp
      then show "walked_tree (working (db ?w1)) t
              \<and> (\<forall>k\<in>set (ids t). typed_task (working (db ?w1)) k) \<and> length (ids t) \<le> d"
        using Cons.prems(7) ts(1) t by (simp add: w1R typed_task_revoke_in)
    qed
    have rest: "cancel_children d now cs (cnt + ?n1) ?w1 =
          Some (Inr (cnt + ?n1 + fst (walk_result now (concat (map ids ts')) ?pr ?w1),
                     snd (walk_result now (concat (map ids ts')) ?pr ?w1)))"
    proof (rule Cons.IH[OF ts'T _ _ _ roots1 _ trees1 d'])
      show "fault (db ?w1) = NoFault" using Cons.prems(2) by (simp add: walk_result_db)
      show "committed (db ?w1) = working (db ?w1)" by (simp add: walk_result_db)
      show "distinct (map task_id (working (db ?w1)))"
        using Cons.prems(4) by (simp add: w1R map_task_id_revoke_in)
      show "distinct (map task_id cs)" using Cons.prems(6) by simp
    qed
    have step: "cancel_children d now (c0 # cs) cnt w = cancel_children d now cs (cnt + ?n1) ?w1"
      using info r call by (simp add: case_prod_beta)
    have app: "walk_result now (concat (map ids ts)) ?pr w =
       (?n1 + fst (walk_result now (concat (map ids ts')) ?pr ?w1),
        snd (walk_result now (concat (map ids ts')) ?pr ?w1))"
      using walk_result_append[OF disj, of now ?pr w] ts(1) by simp
    show ?thesis
      unfolding step rest app by simp
  qed
qed



lemma walk_result_cons:
  assumes "k \<notin> set ks"
  shows "walk_result now (k # ks) (reason_for k reason) w =
     ((if fst (interrupt_job k (rq w)) then 1 else 0)
        + fst (walk_result now ks (\<lambda>i. parent_revocation_reason)
                 \<lparr>db = (db w)\<lparr>working := revoke_in now {k} (\<lambda>i. reason) (working (db w)),
                               committed := revoke_in now {k} (\<lambda>i. reason) (working (db w))\<rparr>,
                  rq = snd (interrupt_job k (rq w))\<rparr>),
      snd (walk_result now ks (\<lambda>i. parent_revocation_reason)
                 \<lparr>db = (db w)\<lparr>working := revoke_in now {k} (\<lambda>i. reason) (working (db w)),
                               committed := revoke_in now {k} (\<lambda>i. reason) (working (db w))\<rparr>,
                  rq = snd (interrupt_job k (rq w))\<rparr>))"
proof -
  have "revoke_in now (set ks) (\<lambda>i. parent_revocation_reason)
          (revoke_in now {k} (\<lambda>i. reason) (working (db w)))
      = revoke_in now ({k} \<union> set ks) (\<lambda>i. if i \<in> {k} then reason else parent_revocation_reason)
          (working (db w))"
    by (rule revoke_in_compose) (use assms in simp)
  also have "\<dots> = revoke_in now (set (k # ks)) (reason_for k reason) (working (db w))"
    by (simp add: reason_for_def[abs_def])
  finally show ?thesis
    by (simp add: walk_result_def case_prod_beta)
qed

lemma cancel_walk:
  assumes "fault (db w) = NoFault"
    and "distinct (map task_id (working (db w)))"
    and "walked_tree (working (db w)) t"
    and "distinct (ids t)"
    and "\<forall>k\<in>set (ids t). typed_task (working (db w)) k"
    and "length (ids t) \<le> fuel"
  shows "cancel_job_and_children_recursive fuel now (root_id t) ty reason w
       = Some (Inr (walk_result now (ids t) (reason_for (root_id t) reason) w))"
  using assms
proof (induction t arbitrary: w fuel ty reason)
  case (Node k ts)
  let ?R = "working (db w)"
  let ?ks = "concat (map ids ts)"
  obtain d where fuel: "fuel = Suc d" and d: "length ?ks \<le> d"
    using Node.prems(6) by (cases fuel) auto
  obtain r where r: "find_row k ?R = Some r" "task_type r \<noteq> []"
    using Node.prems(5) by (auto simp add: typed_task_def split: option.splits)
  have knot: "k \<notin> set ?ks" and dks: "distinct ?ks"
    using Node.prems(4) by auto
  let ?R1 = "revoke_in now {k} (\<lambda>i. reason) ?R"
  let ?c1 = "(db w)\<lparr>working := ?R1, committed := ?R1\<rparr>"
  let ?w1 = "\<lparr>db = ?c1, rq = snd (interrupt_job k (rq w))\<rparr>"
  let ?cs = "children_of k ?R1"
  have info: "get_task_info_from_db now k (db w) = Inr (Some (r, running_time_of now r))"
    using get_task_info_from_db_healthy[OF Node.prems(1), of now k] r(1) by simp
  have save: "save_task_status now k (task_type r) TASK_STATUS_REVOKED None None 100
           (Some (JObj [(''message'', JStr reason)])) (db w) = Inr ?c1"
    using save_revoked_existing[OF Node.prems(1) r(1)] .
  have children: "get_child_tasks_from_db k ?c1 = Inr ?cs"
    using get_child_tasks_from_db_healthy[of ?c1 k] Node.prems(1) by simp
  have unfold: "cancel_job_and_children_recursive fuel now k ty reason w
      = cancel_children d now ?cs (if fst (interrupt_job k (rq w)) then 1 else 0) ?w1"
    unfolding fuel
    using info r(2) save children by (simp add: case_prod_beta)
  have dR1: "distinct (map task_id ?R1)"
    using Node.prems(2) by (simp add: map_task_id_revoke_in)
  have cs_eq: "?cs = filter (\<lambda>r. parent_task_id r = Some k \<and> task_id r \<noteq> k) ?R"
    by (simp add: children_of_revoke_in)
  have cs_in: "c \<in> set ?R \<and> parent_task_id c = Some k \<and> task_id c \<noteq> k" if "c \<in> set ?cs" for c
    using that unfolding cs_eq by simp
  have live_cs: "live_task ?R1 (task_id c) = non_terminal c" if c: "c \<in> set ?cs" for c
  proof -
    have "find_row (task_id c) ?R = Some c"
      using find_row_member[OF Node.prems(2)] cs_in[OF c] by simp
    then show ?thesis
      using cs_in[OF c] by (simp add: live_task_def find_row_revoke_in)
  qed
  have walked: "map task_id (filter non_terminal (children_of k ?R)) = map root_id ts"
      "\<forall>t\<in>set ts. walked_tree ?R t"
    using Node.prems(3) by simp_all
  have nok: "task_id c \<noteq> k" if "c \<in> set ?R" "parent_task_id c = Some k" "non_terminal c" for c
  proof
    assume "task_id c = k"
    then have "k \<in> set (map task_id (filter non_terminal (children_of k ?R)))"
      using that by (auto simp add: children_of_def)
    then have "k \<in> set (map root_id ts)" using walked(1) by simp
    then obtain t where "t \<in> set ts" "root_id t = k" by auto
    then have "k \<in> set ?ks" using root_in_ids[of t] by auto
    with knot show False by simp
  qed
  have "filter non_terminal ?cs
      = filter non_terminal (filter (\<lambda>r. parent_task_id r = Some k \<and> task_id r \<noteq> k) ?R)"
    by (simp only: cs_eq)
  also have "\<dots> = filter non_terminal (children_of k ?R)"
    unfolding children_of_def filter_filter
    by (rule filter_cong[OF refl]) (auto dest: nok)
  finally have "map task_id (filter non_terminal ?cs) = map root_id ts"
    using walked(1) by simp
  moreover have "filter (live_task ?R1) (map task_id ?cs) = map task_id (filter non_terminal ?cs)"
    unfolding filter_map comp_def
    by (rule arg_cong[where f = "map task_id"], rule filter_cong[OF refl]) (simp add: live_cs)
  ultimately have roots: "map root_id ts = filter (live_task (working (db ?w1))) (map task_id ?cs)"
    by simp
  have dcs: "distinct (map task_id ?cs)"
    unfolding cs_eq using Node.prems(2) by (rule distinct_map_filter)
  have trees: "\<forall>t\<in>set ts. walked_tree (working (db ?w1)) t
              \<and> (\<forall>k\<in>set (ids t). typed_task (working (db ?w1)) k) \<and> length (ids t) \<le> d"
  proof
    fix t assume t: "t \<in> set ts"
    have "set (ids t) \<inter> {k} = {}" using knot t by auto
    then have "walked_tree ?R1 t"
      using walked_tree_frame walked(2) t by simp
    moreover have "\<forall>k\<in>set (ids t). typed_task ?R1 k"
      using Node.prems(5) t by (auto simp add: typed_task_revoke_in)
    moreover have "length (ids t) \<le> d"
      using length_ids_member[OF t] d by simp
    ultimately show "walked_tree (working (db ?w1)) t
              \<and> (\<forall>k\<in>set (ids t). typed_task (working (db ?w1)) k) \<and> length (ids t) \<le> d"
      by simp
  qed
  have IH: "cancel_job_and_children_recursive d now (root_id t) None parent_revocation_reason w'
            = Some (Inr (walk_result now (ids t) (\<lambda>i. parent_revocation_reason) w'))"
    if "t \<in> set ts" "fault (db w') = NoFault" "distinct (map task_id (working (db w')))"
      "walked_tree (working (db w')) t" "distinct (ids t)"
      "\<forall>k\<in>set (ids t). typed_task (working (db w')) k" "length (ids t) \<le> d" for t w'
    using Node.IH[OF that] by (simp add: reason_for_parent)
  have loop: "cancel_children d now ?cs (if fst (interrupt_job k (rq w)) then 1 else 0) ?w1 =
      Some (Inr ((if fst (interrupt_job k (rq w)) then 1 else 0)
                   + fst (walk_result now ?ks (\<lambda>i. parent_revocation_reason) ?w1),
                 snd (walk_result now ?ks (\<lambda>i. parent_revocation_reason) ?w1)))"
  proof (rule cancel_children_walk[where T = "set ts", OF IH _ _ _ _ roots dcs trees dks])
    show "set ts \<subseteq> set ts" by simp
    show "fault (db ?w1) = NoFault" using Node.prems(1) by simp
    show "committed (db ?w1) = working (db ?w1)" by simp
    show "distinct (map task_id (working (db ?w1)))" using dR1 by simp
  qed
  show ?case
    unfolding root_id.simps ids.simps unfold loop walk_result_cons[OF knot]
    by simp
qed



subsection \<open>What the engine received\<close>

lemma interrupt_job_props:
  "fst (interrupt_job k e) = commandable e k"
  "refuses (snd (interrupt_job k e)) = refuses e"
  "k' \<noteq> k \<Longrightarrow> jobs (snd (interrupt_job k e)) k' = jobs e k'"
  "sent (snd (interrupt_job k e)) = sent e @ (if commandable e k then [(k, command_for e k)] else [])"
  by (auto simp add: interrupt_job_def commandable_def command_for_def job_fetch_def
      send_stop_job_command_def job_cancel_def split: option.splits)

lemma commandable_after_other:
  "k' \<noteq> k \<Longrightarrow> commandable (snd (interrupt_job k e)) k' = commandable e k'"
  "k' \<noteq> k \<Longrightarrow> command_for (snd (interrupt_job k e)) k' = command_for e k'"
  by (simp_all add: commandable_def command_for_def interrupt_job_props split: option.splits)

lemma interrupt_all_props:
  assumes "distinct ks"
  shows "fst (interrupt_all ks e) = length (filter (commandable e) ks)
       \<and> sent (snd (interrupt_all ks e))
           = sent e @ map (\<lambda>k. (k, command_for e k)) (filter (commandable e) ks)"
  using assms
proof (induction ks arbitrary: e)
  case Nil
  then show ?case by simp
next
  case (Cons k ks)
  let ?e1 = "snd (interrupt_job k e)"
  have ne: "x \<noteq> k" if "x \<in> set ks" for x
    using Cons.prems that by auto
  have f: "filter (commandable ?e1) ks = filter (commandable e) ks"
    by (rule filter_cong[OF refl]) (simp add: commandable_after_other ne)
  have m: "map (\<lambda>k. (k, command_for ?e1 k)) (filter (commandable e) ks)
         = map (\<lambda>k. (k, command_for e k)) (filter (commandable e) ks)"
    by (rule map_cong[OF refl]) (simp add: commandable_after_other ne)
  have ih: "fst (interrupt_all ks ?e1) = length (filter (commandable e) ks)
       \<and> sent (snd (interrupt_all ks ?e1))
           = sent ?e1 @ map (\<lambda>k. (k, command_for e k)) (filter (commandable e) ks)"
    using Cons.IH[of ?e1] Cons.prems by (simp add: f m)
  show ?case
    using ih by (simp add: case_prod_beta interrupt_job_props)
qed

lemma walk_result_rows:
  assumes "k \<in> set ks" "find_row k (working (db w)) = Some r"
  shows "find_row k (committed (db (snd (walk_result now ks rf w)))) = Some (revoked_row now (rf k) r)"
  using assms by (simp add: walk_result_def find_row_revoke_in)

lemma walk_result_other_rows:
  assumes "k \<notin> set ks"
  shows "find_row k (committed (db (snd (walk_result now ks rf w)))) = find_row k (working (db w))"
  using assms by (cases "find_row k (working (db w))") (simp_all add: walk_result_def find_row_revoke_in)

lemma walk_result_engine:
  assumes "distinct ks"
  shows "fst (walk_result now ks rf w) = length (filter (commandable (rq w)) ks)"
    and "sent (rq (snd (walk_result now ks rf w)))
           = sent (rq w) @ map (\<lambda>k. (k, command_for (rq w) k)) (filter (commandable (rq w)) ks)"
  using interrupt_all_props[OF assms, of "rq w"] by (simp_all add: walk_result_def)


subsection \<open>The part of a stored tree that is walked\<close>


lemma root_id_walked_part: "root_id (walked_part rows t) = root_id t"
  by (cases t) simp

lemma concat_filter_part:
  assumes "\<And>t. t \<in> set ts \<Longrightarrow>
      set (f t) \<subseteq> set (g t) \<and> length (f t) \<le> length (g t) \<and> (distinct (g t) \<longrightarrow> distinct (f t))"
  shows "set (concat (map f (filter P ts))) \<subseteq> set (concat (map g ts))
       \<and> length (concat (map f (filter P ts))) \<le> length (concat (map g ts))
       \<and> (distinct (concat (map g ts)) \<longrightarrow> distinct (concat (map f (filter P ts))))"
  using assms
proof (induction ts)
  case Nil
  then show ?case by simp
next
  case (Cons a ts)
  have rest: "set (concat (map f (filter P ts))) \<subseteq> set (concat (map g ts))
       \<and> length (concat (map f (filter P ts))) \<le> length (concat (map g ts))
       \<and> (distinct (concat (map g ts)) \<longrightarrow> distinct (concat (map f (filter P ts))))"
    using Cons by simp
  have a: "set (f a) \<subseteq> set (g a) \<and> length (f a) \<le> length (g a)
      \<and> (distinct (g a) \<longrightarrow> distinct (f a))"
    using Cons.prems[of a] by simp
  show ?case
  proof (cases "P a")
    case True
    with a rest show ?thesis by (simp, blast)
  next
    case False
    with a rest show ?thesis by (simp, blast)
  qed
qed

lemma ids_walked_part_all:
  "set (ids (walked_part rows t)) \<subseteq> set (ids t)
   \<and> length (ids (walked_part rows t)) \<le> length (ids t)
   \<and> (distinct (ids t) \<longrightarrow> distinct (ids (walked_part rows t)))"
proof (induction t)
  case (Node k ts)
  have "set (concat (map (\<lambda>t. ids (walked_part rows t)) (filter (\<lambda>t. live_task rows (root_id t)) ts)))
          \<subseteq> set (concat (map ids ts))
       \<and> length (concat (map (\<lambda>t. ids (walked_part rows t)) (filter (\<lambda>t. live_task rows (root_id t)) ts)))
          \<le> length (concat (map ids ts))
       \<and> (distinct (concat (map ids ts)) \<longrightarrow>
           distinct (concat (map (\<lambda>t. ids (walked_part rows t)) (filter (\<lambda>t. live_task rows (root_id t)) ts))))"
    by (rule concat_filter_part) (rule Node.IH)
  then show ?case
    by (simp add: comp_def, blast)
qed

lemma ids_walked_part:
  "distinct (ids t) \<Longrightarrow> distinct (ids (walked_part rows t))"
  "length (ids (walked_part rows t)) \<le> length (ids t)"
  "set (ids (walked_part rows t)) \<subseteq> set (ids t)"
  using ids_walked_part_all[of rows t] by simp_all

lemma walked_part_all_live:
  "\<forall>k\<in>set (ids t). live_task rows k \<Longrightarrow> walked_part rows t = t"
proof (induction t)
  case (Node k ts)
  have all: "\<forall>t\<in>set ts. live_task rows (root_id t)"
    using Node.prems root_in_ids by fastforce
  have "map (walked_part rows) ts = ts"
    by (rule map_idI) (use Node in auto)
  with all show ?case by simp
qed

lemma stored_tree_walked_part:
  assumes "distinct (map task_id rows)"
  shows "stored_tree rows t \<Longrightarrow> walked_tree rows (walked_part rows t)"
proof (induction t)
  case (Node a ts)
  have ch: "map task_id (children_of a rows) = map root_id ts"
    using Node.prems by simp
  have pt: "non_terminal c = live_task rows (task_id c)" if "c \<in> set (children_of a rows)" for c
  proof -
    have "find_row (task_id c) rows = Some c"
      using find_row_member[OF assms] that by (simp add: children_of_def)
    then show ?thesis by (simp add: live_task_def)
  qed
  have "map task_id (filter non_terminal (children_of a rows))
      = map task_id (filter (\<lambda>c. live_task rows (task_id c)) (children_of a rows))"
    by (rule arg_cong[where f = "map task_id"], rule filter_cong[OF refl]) (rule pt)
  also have "\<dots> = filter (live_task rows) (map task_id (children_of a rows))"
    by (simp add: filter_map comp_def)
  also have "\<dots> = filter (live_task rows) (map root_id ts)"
    by (simp only: ch)
  also have "\<dots> = map root_id (filter (\<lambda>t. live_task rows (root_id t)) ts)"
    by (simp add: filter_map comp_def)
  finally have roots: "map task_id (filter non_terminal (children_of a rows))
      = map root_id (map (walked_part rows) (filter (\<lambda>t. live_task rows (root_id t)) ts))"
    by (simp add: comp_def root_id_walked_part)
  have sub: "\<forall>t\<in>set (map (walked_part rows) (filter (\<lambda>t. live_task rows (root_id t)) ts)).
      walked_tree rows t"
    using Node by auto
  show ?case
    using Node.prems roots sub by simp
qed


text \<open>
  Claim C1, as the code has it. Let a tree of distinct tasks be stored in a table with
  unique task ids, on a store that answers, and let every task that the walk reaches (the
  root, and below each reached node its children in a non-terminal status) have a task
  type that is not empty. Then the routine called on the root returns (a recursion depth
  of the number of nodes is enough); every reached task is then committed with status
  \<^verbatim>\<open>REVOKED\<close>, progress 100 and details \<^verbatim>\<open>{message: reason}\<close>, the reason being the caller's
  for the root and "Cancelled due to parent task revocation." below it; no other row is
  changed, so a child in a terminal status is not entered; the count returned is the
  number of reached tasks whose job existed in a non-terminal engine state and accepted
  the command, and these are the commands the engine received, in the order of the walk.
  When every node of the tree is in a non-terminal status, the reached tasks are all the
  nodes of the tree.
\<close>


theorem cancel_revokes_stored_tree:
  assumes "fault (db w) = NoFault"
    and "distinct (map task_id (working (db w)))"
    and "stored_tree (working (db w)) t"
    and "distinct (ids t)"
    and "\<forall>k\<in>set (ids (walked_part (working (db w)) t)). typed_task (working (db w)) k"
    and "length (ids t) \<le> fuel"
  shows "\<exists>n w'.
       cancel_job_and_children_recursive fuel now (root_id t) ty reason w = Some (Inr (n, w'))
     \<and> (\<forall>k\<in>set (ids (walked_part (working (db w)) t)).
            \<exists>r. find_row k (committed (db w')) = Some r
              \<and> status r = Some TASK_STATUS_REVOKED \<and> progress r = 100
              \<and> details r = Some (Valid (JObj [(''message'',
                    JStr (if k = root_id t then reason else parent_revocation_reason))])))
     \<and> (\<forall>k. k \<notin> set (ids (walked_part (working (db w)) t)) \<longrightarrow>
            find_row k (committed (db w')) = find_row k (working (db w)))
     \<and> n = length (filter (commandable (rq w)) (ids (walked_part (working (db w)) t)))
     \<and> sent (rq w') = sent (rq w) @ map (\<lambda>k. (k, command_for (rq w) k))
                          (filter (commandable (rq w)) (ids (walked_part (working (db w)) t)))
     \<and> ((\<forall>k\<in>set (ids t). live_task (working (db w)) k) \<longrightarrow>
            walked_part (working (db w)) t = t)"
proof -
  let ?R = "working (db w)"
  let ?p = "walked_part ?R t"
  let ?rf = "reason_for (root_id t) reason"
  let ?res = "walk_result now (ids ?p) ?rf w"
  have walked: "walked_tree ?R ?p"
    using stored_tree_walked_part[OF assms(2,3)] .
  have dp: "distinct (ids ?p)"
    using ids_walked_part(1)[OF assms(4)] .
  have lp: "length (ids ?p) \<le> fuel"
    using ids_walked_part(2)[of ?R t] assms(6) by simp
  have run: "cancel_job_and_children_recursive fuel now (root_id t) ty reason w
      = Some (Inr (fst ?res, snd ?res))"
    using cancel_walk[OF assms(1,2) walked dp assms(5) lp, of now ty reason]
    by (simp add: root_id_walked_part)
  have rows: "\<exists>r. find_row k (committed (db (snd ?res))) = Some r
            \<and> status r = Some TASK_STATUS_REVOKED \<and> progress r = 100
            \<and> details r = Some (Valid (JObj [(''message'',
                  JStr (if k = root_id t then reason else parent_revocation_reason))]))"
    if k: "k \<in> set (ids ?p)" for k
  proof -
    obtain r where r: "find_row k ?R = Some r"
      using assms(5) k by (auto simp add: typed_task_def split: option.splits)
    show ?thesis
      using walk_result_rows[OF k r, of now ?rf]
      by (simp add: revoked_row_fields reason_for_def)
  qed
  show ?thesis
    apply (rule exI[of _ "fst ?res"], rule exI[of _ "snd ?res"])
    apply (intro conjI ballI allI impI)
         apply (rule run)
        apply (erule rows)
       apply (erule walk_result_other_rows)
      apply (rule walk_result_engine(1)[OF dp])
     apply (rule walk_result_engine(2)[OF dp])
    apply (erule walked_part_all_live)
    done
qed



subsection \<open>The family of four tasks\<close>

lemmas status_names = TASK_STATUS_REVOKED_def TASK_STATUS_PENDING_def TASK_STATUS_STARTED_def
  TASK_STATUS_PROGRESS_def TASK_STATUS_SUCCESS_def TASK_STATUS_FAILURE_def

lemma family_world:
  "fault (db \<lparr>db = healthy family_rows, rq = e\<rparr>) = NoFault"
  "distinct (map task_id (working (db \<lparr>db = healthy family_rows, rq = e\<rparr>)))"
  "stored_tree (working (db \<lparr>db = healthy family_rows, rq = e\<rparr>)) family_tree"
  "\<forall>k\<in>set (ids family_tree). live_task (working (db \<lparr>db = healthy family_rows, rq = e\<rparr>)) k
      \<and> typed_task (working (db \<lparr>db = healthy family_rows, rq = e\<rparr>)) k"
  by (simp_all add: healthy_def family_rows_def family_tree_def row_of_def children_of_def
      find_row_def live_task_def typed_task_def non_terminal_def terminal_statuses_def status_names)

lemma family_shape:
  "distinct (ids family_tree)"
  "length (ids family_tree) \<le> 4"
  "root_id family_tree = ''r''"
  "ids family_tree = [''r'', ''c1'', ''g'', ''c2'']"
  by (simp_all add: family_tree_def)

lemma family_commandable:
  "filter (commandable family_engine) [''r'', ''c1'', ''g'', ''c2''] = [''r'', ''c1'']"
  "command_for family_engine ''r'' = Stop" "command_for family_engine ''c1'' = Cancel"
  "sent family_engine = []"
  by (simp_all add: commandable_def command_for_def family_engine_def engine_with_def job_in_def
      is_terminal_job_def)

lemma family_walked_part: "walked_part family_rows family_tree = family_tree"
  by (rule walked_part_all_live)
    (simp add: family_rows_def family_tree_def row_of_def find_row_def live_task_def
      non_terminal_def terminal_statuses_def status_names)

text \<open>
  Witness for C1: on the family of four tasks the routine returns 2 (a stop for the root's
  started job, a cancel for the first child's queued job; the grandchild's job is finished
  and the second child has none) and all four rows are revoked.
\<close>

theorem cancel_revokes_stored_tree_witness:
  "stored_tree family_rows family_tree
   \<and> map (live_task family_rows) (ids family_tree) = [True, True, True, True]
   \<and> map (typed_task family_rows) (ids family_tree) = [True, True, True, True]
   \<and> (\<exists>w'. cancel_job_and_children_recursive 4 10 ''r'' None ''stop''
               \<lparr>db = healthy family_rows, rq = family_engine\<rparr> = Some (Inr (2, w'))
         \<and> map (\<lambda>k. map_option status (find_row k (committed (db w')))) [''r'', ''c1'', ''g'', ''c2'']
             = [Some (Some ''REVOKED''), Some (Some ''REVOKED''), Some (Some ''REVOKED''),
                Some (Some ''REVOKED'')]
         \<and> sent (rq w') = [(''r'', Stop), (''c1'', Cancel)])"
proof -
  let ?w = "\<lparr>db = healthy family_rows, rq = family_engine\<rparr>"
  have hyp: "stored_tree family_rows family_tree
   \<and> map (live_task family_rows) (ids family_tree) = [True, True, True, True]
   \<and> map (typed_task family_rows) (ids family_tree) = [True, True, True, True]"
    by (simp add: family_rows_def family_tree_def row_of_def children_of_def
      find_row_def live_task_def typed_task_def non_terminal_def terminal_statuses_def status_names)
  note fw = family_world[of family_engine]
  have wR: "working (db ?w) = family_rows"
    by (simp add: healthy_def)
  have typed: "\<forall>k\<in>set (ids (walked_part (working (db ?w)) family_tree)). typed_task (working (db ?w)) k"
    unfolding wR family_walked_part using fw(4) unfolding wR by simp
  from cancel_revokes_stored_tree[OF fw(1,2,3) family_shape(1) typed family_shape(2),
      where now = 10 and ty = None and reason = "''stop''"]
  obtain n w' where r:
    "cancel_job_and_children_recursive 4 10 (root_id family_tree) None ''stop'' ?w = Some (Inr (n, w'))"
    "\<forall>k\<in>set (ids (walked_part (working (db ?w)) family_tree)).
        \<exists>r. find_row k (committed (db w')) = Some r
            \<and> status r = Some TASK_STATUS_REVOKED \<and> progress r = 100
            \<and> details r = Some (Valid (JObj [(''message'',
                  JStr (if k = root_id family_tree then ''stop'' else parent_revocation_reason))]))"
    "n = length (filter (commandable (rq ?w)) (ids (walked_part (working (db ?w)) family_tree)))"
    "sent (rq w') = sent (rq ?w) @ map (\<lambda>k. (k, command_for (rq ?w) k))
                      (filter (commandable (rq ?w)) (ids (walked_part (working (db ?w)) family_tree)))"
    by blast
  have rqw: "rq ?w = family_engine"
    by simp
  have n: "n = 2"
    using r(3) unfolding rqw wR family_walked_part family_shape(4) family_commandable(1) by simp
  have s: "sent (rq w') = [(''r'', Stop), (''c1'', Cancel)]"
    using r(4) unfolding rqw wR family_walked_part family_shape(4) family_commandable(1)
    by (simp add: family_commandable)
  have rows: "map (\<lambda>k. map_option status (find_row k (committed (db w')))) [''r'', ''c1'', ''g'', ''c2'']
             = [Some (Some ''REVOKED''), Some (Some ''REVOKED''), Some (Some ''REVOKED''),
                Some (Some ''REVOKED'')]"
    using r(2) unfolding wR family_walked_part family_shape(4)
    by (auto simp add: TASK_STATUS_REVOKED_def)
  have run: "cancel_job_and_children_recursive 4 10 ''r'' None ''stop'' ?w = Some (Inr (2, w'))"
    using r(1) n by (simp add: family_shape(3))
  show ?thesis
    by (intro conjI exI[of _ w'] hyp[THEN conjunct1] hyp[THEN conjunct2, THEN conjunct1]
        hyp[THEN conjunct2, THEN conjunct2] run rows s)
qed

text \<open>
  Counterexample to C1 as stated: a stored tree of one pending task whose task type is the
  empty string. The routine leaves its row pending, and counts the stop command it sends
  to a job that is already finished.
\<close>

theorem cancel_skips_untyped_task:
  "stored_tree untyped_rows (Node ''r'' [])
   \<and> live_task untyped_rows ''r''
   \<and> cancel_job_and_children_recursive (Suc 0) 10 ''r'' None ''stop''
        \<lparr>db = healthy untyped_rows, rq = engine_with [''r'' \<mapsto> job_in finished None]\<rparr>
      = Some (Inr (1, \<lparr>db = healthy untyped_rows,
                       rq = (engine_with [''r'' \<mapsto> job_in finished None])\<lparr>sent := [(''r'', Stop)]\<rparr>\<rparr>))
   \<and> map status untyped_rows = [Some ''PENDING'']"
  by (simp add: untyped_rows_def row_of_def children_of_def find_row_def live_task_def
      non_terminal_def terminal_statuses_def status_names healthy_def get_task_info_from_db_def
      db_select_def get_db_def stop_untyped_job_def job_fetch_def engine_with_def
      send_stop_job_command_def)



section \<open>The cancel endpoint\<close>

text \<open>
  Claim C10, as the code has it. Let the task be non-terminal in a store that answers, and
  let \<open>t\<close> be the tree the routine walks from it (under each node, the children whose
  status is not terminal), all its tasks with a task type that is not empty. If the
  routine returns the count 0, the endpoint answers 400 with "Task could not be
  cancelled ..." and the world the routine left, in which every task of \<open>t\<close> is committed
  as \<^verbatim>\<open>REVOKED\<close> with progress 100.
\<close>

theorem cancel_endpoint_reports_failure_after_revoking:
  assumes "fault (db w) = NoFault"
    and "distinct (map task_id (working (db w)))"
    and "walked_tree (working (db w)) t"
    and "distinct (ids t)"
    and "live_task (working (db w)) (root_id t)"
    and "\<forall>k\<in>set (ids t). typed_task (working (db w)) k"
    and "length (ids t) \<le> fuel"
    and "cancel_job_and_children_recursive fuel now (root_id t) None
           (''Cancellation requested for task '' @ root_id t @ '' via API.'') w = Some (Inr (0, w'))"
  shows "cancel_task_endpoint fuel now (root_id t) w =
           Some (Inr ((\<lparr>message = ''Task could not be cancelled (e.g., already completed or not found in active state).'',
                         cancel_task_id = root_id t, cancelled_jobs_count = None\<rparr>, 400), w'))
       \<and> (\<forall>k\<in>set (ids t). \<exists>r. find_row k (committed (db w')) = Some r
              \<and> status r = Some TASK_STATUS_REVOKED \<and> progress r = 100)"
proof
  obtain row where row: "find_row (root_id t) (working (db w)) = Some row"
      "status row \<notin> Some ` set terminal_statuses"
    using assms(5) by (auto simp add: live_task_def non_terminal_def split: option.splits)
  have info: "get_task_info_from_db now (root_id t) (db w) = Inr (Some (row, running_time_of now row))"
    using get_task_info_from_db_healthy[OF assms(1), of now "root_id t"] row(1) by simp
  show "cancel_task_endpoint fuel now (root_id t) w =
           Some (Inr ((\<lparr>message = ''Task could not be cancelled (e.g., already completed or not found in active state).'',
                         cancel_task_id = root_id t, cancelled_jobs_count = None\<rparr>, 400), w'))"
    using info row(2) assms(8) by (simp add: cancel_task_endpoint_def)
next
  let ?rf = "reason_for (root_id t) (''Cancellation requested for task '' @ root_id t @ '' via API.'')"
  have "Some (Inr (0, w')) = Some (Inr (walk_result now (ids t) ?rf w))"
    using cancel_walk[OF assms(1,2,3,4,6,7), of now None] assms(8) by simp
  then have w': "w' = snd (walk_result now (ids t) ?rf w)"
    by (metis Inr_inject option.inject snd_conv)
  show "\<forall>k\<in>set (ids t). \<exists>r. find_row k (committed (db w')) = Some r
              \<and> status r = Some TASK_STATUS_REVOKED \<and> progress r = 100"
  proof
    fix k assume k: "k \<in> set (ids t)"
    obtain r where r: "find_row k (working (db w)) = Some r"
      using assms(6) k by (auto simp add: typed_task_def split: option.splits)
    show "\<exists>r. find_row k (committed (db w')) = Some r
              \<and> status r = Some TASK_STATUS_REVOKED \<and> progress r = 100"
      unfolding w' using walk_result_rows[OF k r, of now ?rf]
      by (simp add: revoked_row_fields)
  qed
qed

lemma family_walked:
  "walked_tree (working (db \<lparr>db = healthy family_rows, rq = e\<rparr>)) family_tree"
  "live_task (working (db \<lparr>db = healthy family_rows, rq = e\<rparr>)) (root_id family_tree)"
  "\<forall>k\<in>set (ids family_tree). typed_task (working (db \<lparr>db = healthy family_rows, rq = e\<rparr>)) k"
  by (simp_all add: healthy_def family_rows_def family_tree_def row_of_def children_of_def
      find_row_def live_task_def typed_task_def non_terminal_def terminal_statuses_def status_names)

text \<open>
  Witness for C10: the family of four tasks with no job in the engine: the count is 0, the
  answer is 400, and all four rows are revoked.
\<close>

theorem cancel_endpoint_reports_failure_after_revoking_witness:
  "walked_tree family_rows family_tree
   \<and> live_task family_rows ''r''
   \<and> map (typed_task family_rows) (ids family_tree) = [True, True, True, True]
   \<and> (\<exists>w'. cancel_job_and_children_recursive 4 10 ''r'' None
               ''Cancellation requested for task r via API.''
               \<lparr>db = healthy family_rows, rq = engine_with Map.empty\<rparr> = Some (Inr (0, w'))
         \<and> cancel_task_endpoint 4 10 ''r'' \<lparr>db = healthy family_rows, rq = engine_with Map.empty\<rparr> =
             Some (Inr ((\<lparr>message = ''Task could not be cancelled (e.g., already completed or not found in active state).'',
                           cancel_task_id = ''r'', cancelled_jobs_count = None\<rparr>, 400), w'))
         \<and> map (\<lambda>k. map_option status (find_row k (committed (db w')))) [''r'', ''c1'', ''g'', ''c2'']
             = [Some (Some ''REVOKED''), Some (Some ''REVOKED''), Some (Some ''REVOKED''),
                Some (Some ''REVOKED'')])"
proof -
  let ?e = "engine_with Map.empty"
  let ?w = "\<lparr>db = healthy family_rows, rq = ?e\<rparr>"
  let ?reason = "''Cancellation requested for task '' @ root_id family_tree @ '' via API.''"
  let ?res = "walk_result 10 (ids family_tree) (reason_for (root_id family_tree) ?reason) ?w"
  note fw = family_world[of ?e]
  note fk = family_walked[of ?e]
  have hyp: "walked_tree family_rows family_tree
   \<and> live_task family_rows ''r''
   \<and> map (typed_task family_rows) (ids family_tree) = [True, True, True, True]"
    by (simp add: family_rows_def family_tree_def row_of_def children_of_def
      find_row_def live_task_def typed_task_def non_terminal_def terminal_statuses_def status_names)
  have none: "filter (commandable (rq ?w)) (ids family_tree) = []"
    by (simp add: commandable_def engine_with_def)
  have zero: "fst ?res = 0"
    using walk_result_engine(1)[OF family_shape(1), of 10 _ ?w] none by simp
  have run: "cancel_job_and_children_recursive 4 10 (root_id family_tree) None ?reason ?w
      = Some (Inr (0, snd ?res))"
    using cancel_walk[OF fw(1,2) fk(1) family_shape(1) fk(3) family_shape(2), of 10 None ?reason] zero
    by (metis prod.collapse)
  note main = cancel_endpoint_reports_failure_after_revoking[OF fw(1,2) fk(1) family_shape(1) fk(2,3)
      family_shape(2) run]
  have rows: "map (\<lambda>k. map_option status (find_row k (committed (db (snd ?res))))) [''r'', ''c1'', ''g'', ''c2'']
             = [Some (Some ''REVOKED''), Some (Some ''REVOKED''), Some (Some ''REVOKED''),
                Some (Some ''REVOKED'')]"
    using main[THEN conjunct2] unfolding family_shape(4) by (auto simp add: TASK_STATUS_REVOKED_def)
  have run': "cancel_job_and_children_recursive 4 10 ''r'' None
               ''Cancellation requested for task r via API.'' ?w = Some (Inr (0, snd ?res))"
    using run by (simp add: family_shape(3))
  have ep: "cancel_task_endpoint 4 10 ''r'' ?w =
             Some (Inr ((\<lparr>message = ''Task could not be cancelled (e.g., already completed or not found in active state).'',
                           cancel_task_id = ''r'', cancelled_jobs_count = None\<rparr>, 400), snd ?res))"
    using main[THEN conjunct1] by (simp add: family_shape(3))
  show ?thesis
    by (intro conjI exI[of _ "snd ?res"] hyp[THEN conjunct1] hyp[THEN conjunct2, THEN conjunct1]
        hyp[THEN conjunct2, THEN conjunct2] run' ep rows)
qed



text \<open>
  Counterexample to C10 as stated: with a succeeded child between the root and a pending
  grandchild, and no job in the engine, the endpoint answers 400 and the grandchild, a
  non-terminal descendant, is still pending; and a pending task with an empty task type
  gets the same answer with nothing revoked at all.
\<close>

theorem cancel_endpoint_leaves_tasks_unrevoked:
  "cancel_task_endpoint 3 10 ''r'' \<lparr>db = healthy succeeded_child_rows, rq = engine_with Map.empty\<rparr>
     = Some (Inr ((\<lparr>message = ''Task could not be cancelled (e.g., already completed or not found in active state).'',
                    cancel_task_id = ''r'', cancelled_jobs_count = None\<rparr>, 400),
                  \<lparr>db = healthy
                     [(row_of ''r'' None ''main_analysis'' TASK_STATUS_REVOKED
                         (Some (Valid (JObj [(''message'', JStr ''Cancellation requested for task r via API.'')])))
                         (Some 1) (Some 10))\<lparr>progress := 100, timestamp := 10\<rparr>,
                      row_of ''c'' (Some ''r'') ''album_analysis'' TASK_STATUS_SUCCESS None (Some 2) (Some 3),
                      row_of ''g'' (Some ''c'') ''album_batch'' TASK_STATUS_PENDING None None None],
                   rq = engine_with Map.empty\<rparr>))
   \<and> cancel_task_endpoint 1 10 ''r'' \<lparr>db = healthy untyped_rows, rq = engine_with Map.empty\<rparr>
     = Some (Inr ((\<lparr>message = ''Task could not be cancelled (e.g., already completed or not found in active state).'',
                    cancel_task_id = ''r'', cancelled_jobs_count = None\<rparr>, 400),
                  \<lparr>db = healthy untyped_rows, rq = engine_with Map.empty\<rparr>))"
  by (simp add: eval_nat_numeral cancel_task_endpoint_def succeeded_child_rows_def untyped_rows_def
      row_of_def healthy_def get_task_info_from_db_def db_select_def get_db_def find_row_def
      terminal_statuses_def status_names save_task_status_def Let_def prepare_details_def
      json_dumps_def cap_log_def is_list_def dict_get_def upsert_task_status_def upsert_row_def
      db_commit_def interrupt_job_def job_fetch_def engine_with_def get_child_tasks_from_db_def
      stop_untyped_job_def)


end
